theory Spec2Isabelle
  imports Complex_Main
begin

section \<open>The to-do service of \<open>src/index.js\<close>\<close>

text \<open>
  The program is one Express application over a single in-memory array \<open>users\<close>. A
  request runs through the middlewares (guards) registered for its route and then
  through the route's handler. Guards either send a response and stop, or extend the
  request object (\<open>request.user\<close>, \<open>request.todo\<close>) and call \<open>next()\<close>.

  What reaches the program: the path parameter \<open>id\<close> is a string; the header
  \<open>username\<close> is a string or absent; the body fields \<open>name\<close>, \<open>username\<close>, \<open>title\<close>,
  \<open>deadline\<close> are whatever \<open>express.json()\<close> parsed, any JSON value, or absent.
\<close>

subsection \<open>JavaScript values\<close>

text \<open>
  A body field is a value of \<open>jsval\<close>, \<open>JUndefined\<close> when the field is absent. A number
  is the value of the double that \<open>JSON.parse\<close> produced (so \<open>-0\<close> and \<open>0\<close> are one
  number, as for \<open>===\<close>), or an infinity for a literal beyond the range of doubles;
  \<open>JSON.parse\<close> gives no \<open>NaN\<close>.
\<close>

datatype jsval =
    JUndefined
  | JNull
  | JBool bool
  | JNumber real
  | JInfinity bool
  | JString string
  | JArray "jsval list"
  | JObject "(string \<times> jsval) list"

fun primitive :: "jsval \<Rightarrow> bool" where
  "primitive (JArray vs) = False"
| "primitive (JObject fs) = False"
| "primitive v = True"

text \<open>
  \<open>a === b\<close>, for \<open>a\<close> read from the store and \<open>b\<close> a value of the current request.
  Primitive values are equal when they are the same value. Arrays and objects are equal
  only when they are the same object, and an array or object of the current request was
  created by \<open>express.json()\<close> for this request, so it is no object of the store,
  whatever it contains.
\<close>

definition strict_eq :: "jsval \<Rightarrow> jsval \<Rightarrow> bool" where
  "strict_eq a b = (primitive a \<and> a = b)"

text \<open>\<open>request.headers.username\<close>: a string, or \<open>undefined\<close> when the header is absent.\<close>

definition header :: "string option \<Rightarrow> jsval" where
  "header h = (case h of None \<Rightarrow> JUndefined | Some v \<Rightarrow> JString v)"

subsection \<open>Data\<close>

text \<open>
  A to-do is a JavaScript object with identity: the delete handler looks it up with
  \<open>indexOf\<close>, which compares references, and the update handlers assign to its fields
  through a reference. To-do objects therefore live in an explicit heap, and a user's
  \<open>todos\<close> array holds references.
\<close>

type_synonym ref = nat

text \<open>\<open>Date v\<close> is \<open>new Date(v)\<close> for a body value \<open>v\<close>; \<open>Now t\<close> is \<open>new Date()\<close> at clock
  reading \<open>t\<close>.\<close>

datatype date = Date jsval | Now int

record todo =
  todo_id :: string
  title :: jsval
  deadline :: date
  todo_done :: bool
  created_at :: date

record user =
  user_id :: string
  name :: jsval
  username :: jsval
  pro :: bool
  todos :: "ref list"

text \<open>
  The store: the array \<open>users\<close>, the heap of to-do objects, and the number of to-do
  objects allocated so far (the next fresh reference). User objects are created by one
  object literal each and pushed once onto \<open>users\<close>, which is never shortened, so a
  reference to a user object is its index in \<open>users\<close>.
\<close>

record store =
  users :: "user list"
  heap :: "ref \<Rightarrow> todo option"
  allocated :: nat

definition empty_store :: store where
  "empty_store = \<lparr>users = [], heap = (\<lambda>r. None), allocated = 0\<rparr>"

record request =
  h_username :: "string option"
  p_id :: string
  b_name :: jsval
  b_username :: jsval
  b_title :: jsval
  b_deadline :: jsval
  ctx_user :: "nat option"
  ctx_todo :: "ref option"

text \<open>What \<open>response.json(v)\<close> serialises: a user is sent with its \<open>todos\<close> array
  expanded to the objects it refers to.\<close>

datatype json =
    JError string
  | JUser user "todo list"
  | JTodo todo
  | JTodos "todo list"
  | JEmpty

record response =
  status :: nat
  body :: json

definition error_response :: "nat \<Rightarrow> string \<Rightarrow> response" where
  "error_response code msg = \<lparr>status = code, body = JError msg\<rparr>"

text \<open>A middleware either answers (and the pipeline stops), calls \<open>next()\<close> with the
  request object as it now is, or throws: reading a property of \<open>undefined\<close> is a
  \<open>TypeError\<close>.\<close>

datatype 'a outcome = Respond response | Next 'a | Throw

subsection \<open>Array helpers\<close>

text \<open>\<open>const [x] = xs.filter(P)\<close> binds the first element satisfying \<open>P\<close>, and
  \<open>xs.indexOf(v)\<close> gives the first index holding \<open>v\<close>; both are a first-index search.\<close>

fun first_index :: "('a \<Rightarrow> bool) \<Rightarrow> 'a list \<Rightarrow> nat option" where
  "first_index P [] = None"
| "first_index P (x # xs) = (if P x then Some 0 else map_option Suc (first_index P xs))"

definition indexOf :: "'a list \<Rightarrow> 'a \<Rightarrow> nat option" where
  "indexOf xs v = first_index (\<lambda>x. x = v) xs"

text \<open>\<open>xs.splice(k, 1)\<close>.\<close>

definition splice1 :: "nat \<Rightarrow> 'a list \<Rightarrow> 'a list" where
  "splice1 k xs = take k xs @ drop (Suc k) xs"

text \<open>The objects an array of references holds (a reference outside the heap holds
  nothing).\<close>

fun objects :: "(ref \<Rightarrow> todo option) \<Rightarrow> ref list \<Rightarrow> todo list" where
  "objects h [] = []"
| "objects h (r # rs) = (case h r of None \<Rightarrow> objects h rs | Some t \<Rightarrow> t # objects h rs)"

definition has_id :: "(ref \<Rightarrow> todo option) \<Rightarrow> string \<Rightarrow> ref \<Rightarrow> bool" where
  "has_id h i r = (case h r of None \<Rightarrow> False | Some t \<Rightarrow> todo_id t = i)"

definition lookup_user :: "store \<Rightarrow> request \<Rightarrow> (nat \<times> user) option" where
  "lookup_user s req =
     (case ctx_user req of
        None \<Rightarrow> None
      | Some a \<Rightarrow> if a < length (users s) then Some (a, users s ! a) else None)"

definition lookup_todo :: "store \<Rightarrow> request \<Rightarrow> (ref \<times> todo) option" where
  "lookup_todo s req =
     (case ctx_todo req of
        None \<Rightarrow> None
      | Some r \<Rightarrow> (case heap s r of None \<Rightarrow> None | Some t \<Rightarrow> Some (r, t)))"

subsection \<open>The uuid package\<close>

text \<open>
  \<open>validate\<close> and \<open>v4\<close> come from the npm package \<open>uuid\<close>, which is not part of the
  repository. The guards below take the validator as a parameter, applied as the
  source applies it: \<open>validate id 4\<close>. The handlers take the string \<open>uuidv4()\<close> returned
  as an argument.

  \<open>uuid_validate\<close> is the package's own function. Its source is
  \<^verbatim>\<open>function validate(uuid) { return typeof uuid === 'string' && REGEX.test(uuid); }\<close>
  with \<open>REGEX\<close> (package version 8.3) the case-insensitive pattern
  \<^verbatim>\<open>^(?:[0-9a-f]{8}-[0-9a-f]{4}-[1-5][0-9a-f]{3}-[89ab][0-9a-f]{3}-[0-9a-f]{12}|00000000-0000-0000-0000-000000000000)$\<close>.
  The function has one parameter, so a second argument is dropped by the call.
\<close>

definition is_hex :: "char \<Rightarrow> bool" where
  "is_hex c = (c \<in> set ''0123456789abcdefABCDEF'')"

text \<open>Matching a prefix of the input against a piece of the pattern gives the rest of
  the input: \<open>hexes n\<close> is \<^verbatim>\<open>[0-9a-f]{n}\<close>, \<open>one_of cs\<close> a character class.\<close>

fun hexes :: "nat \<Rightarrow> string \<Rightarrow> string option" where
  "hexes 0 s = Some s"
| "hexes (Suc n) [] = None"
| "hexes (Suc n) (c # s) = (if is_hex c then hexes n s else None)"

fun one_of :: "string \<Rightarrow> string \<Rightarrow> string option" where
  "one_of cs [] = None"
| "one_of cs (c # s) = (if c \<in> set cs then Some s else None)"

text \<open>The first alternative of the pattern, with the class of the version digit as a
  parameter.\<close>

definition uuid_pattern :: "string \<Rightarrow> string \<Rightarrow> bool" where
  "uuid_pattern versions s =
     (Option.bind (hexes 8 s) (\<lambda>s.
      Option.bind (one_of ''-'' s) (\<lambda>s.
      Option.bind (hexes 4 s) (\<lambda>s.
      Option.bind (one_of ''-'' s) (\<lambda>s.
      Option.bind (one_of versions s) (\<lambda>s.
      Option.bind (hexes 3 s) (\<lambda>s.
      Option.bind (one_of ''-'' s) (\<lambda>s.
      Option.bind (one_of ''89abAB'' s) (\<lambda>s.
      Option.bind (hexes 3 s) (\<lambda>s.
      Option.bind (one_of ''-'' s) (\<lambda>s.
      hexes 12 s)))))))))) = Some [])"

definition uuid_validate :: "string \<Rightarrow> nat \<Rightarrow> bool" where
  "uuid_validate uuid version =
     (uuid_pattern ''12345'' uuid \<or> uuid = ''00000000-0000-0000-0000-000000000000'')"

text \<open>A version-4 UUID in the sense of RFC 4122: the version digit is \<open>4\<close> and the
  variant digit is one of \<open>8\<close>, \<open>9\<close>, \<open>a\<close>, \<open>b\<close>.\<close>

definition is_uuid_v4 :: "string \<Rightarrow> bool" where
  "is_uuid_v4 s = uuid_pattern ''4'' s"

text \<open>The shape every UUID has, whatever its version and variant digits: groups of 8, 4,
  4, 4 and 12 hexadecimal digits.\<close>

definition uuid_shape :: "string \<Rightarrow> bool" where
  "uuid_shape s =
     (Option.bind (hexes 8 s) (\<lambda>s.
      Option.bind (one_of ''-'' s) (\<lambda>s.
      Option.bind (hexes 4 s) (\<lambda>s.
      Option.bind (one_of ''-'' s) (\<lambda>s.
      Option.bind (hexes 4 s) (\<lambda>s.
      Option.bind (one_of ''-'' s) (\<lambda>s.
      Option.bind (hexes 4 s) (\<lambda>s.
      Option.bind (one_of ''-'' s) (\<lambda>s.
      hexes 12 s)))))))) = Some [])"

subsection \<open>Middlewares\<close>

definition checksExistsUserAccount :: "store \<Rightarrow> request \<Rightarrow> request outcome" where
  "checksExistsUserAccount s request =
     (case first_index (\<lambda>user. strict_eq (username user) (header (h_username request))) (users s) of
        None \<Rightarrow> Respond (error_response 404 ''User not found!'')
      | Some account \<Rightarrow> Next (request\<lparr>ctx_user := Some account\<rparr>))"

definition checksCreateTodosUserAvailability :: "store \<Rightarrow> request \<Rightarrow> request outcome" where
  "checksCreateTodosUserAvailability s request =
     (case lookup_user s request of
        None \<Rightarrow> Throw
      | Some (a, user) \<Rightarrow>
          if length (todos user) < 10 \<or> pro user then Next request
          else Respond (error_response 403 ''User is not PRO''))"

text \<open>The \<open>for\<close> loop of \<open>checksTodoExists\<close>: it has no \<open>break\<close>, so every to-do with the
  id is assigned in turn and the last one stays.\<close>

fun attach :: "(ref \<Rightarrow> todo option) \<Rightarrow> string \<Rightarrow> nat \<Rightarrow> ref list \<Rightarrow> request \<Rightarrow> request" where
  "attach h i account [] request = request"
| "attach h i account (r # rs) request =
     attach h i account rs
       (if has_id h i r then request\<lparr>ctx_user := Some account, ctx_todo := Some r\<rparr>
        else request)"

definition checksTodoExists ::
  "(string \<Rightarrow> nat \<Rightarrow> bool) \<Rightarrow> store \<Rightarrow> request \<Rightarrow> request outcome" where
  "checksTodoExists validate s request =
     (let account = first_index (\<lambda>user. strict_eq (username user) (header (h_username request))) (users s);
          validateId = validate (p_id request) 4
      in if \<not> validateId then Respond (error_response 400 ''Id is not uuid'')
         else (case account of
             Some a \<Rightarrow>
               (let todoIdExists = (\<exists>r \<in> set (todos (users s ! a)). has_id (heap s) (p_id request) r)
                in if todoIdExists
                   then Next (attach (heap s) (p_id request) a (todos (users s ! a)) request)
                   else Respond (error_response 404 ''Todo not found''))
           | None \<Rightarrow> Respond (error_response 404 ''User not found'')))"

definition findUserById :: "store \<Rightarrow> request \<Rightarrow> request outcome" where
  "findUserById s request =
     (case first_index (\<lambda>account. user_id account = p_id request) (users s) of
        None \<Rightarrow> Respond (error_response 404 ''User not found!'')
      | Some user \<Rightarrow> Next (request\<lparr>ctx_user := Some user\<rparr>))"

subsection \<open>Handlers\<close>

text \<open>A handler returns the store after its assignments and the response it sends;
  \<open>None\<close> is an uncaught \<open>TypeError\<close>. \<open>response.json\<close> without \<open>status\<close> answers 200.\<close>

definition user_json :: "store \<Rightarrow> user \<Rightarrow> json" where
  "user_json s u = JUser u (objects (heap s) (todos u))"

definition post_users :: "string \<Rightarrow> store \<Rightarrow> request \<Rightarrow> (store \<times> response) option" where
  "post_users uuid s request =
     (let usernameAlreadyExists = (\<exists>user \<in> set (users s). strict_eq (username user) (b_username request))
      in if usernameAlreadyExists
         then Some (s, error_response 400 ''Username already exists'')
         else (let user = \<lparr>user_id = uuid, name = b_name request,
                           username = b_username request, pro = False, todos = []\<rparr>;
                   s' = s\<lparr>users := users s @ [user]\<rparr>
               in Some (s', \<lparr>status = 201, body = user_json s' user\<rparr>)))"

definition get_user :: "store \<Rightarrow> request \<Rightarrow> (store \<times> response) option" where
  "get_user s request =
     (case lookup_user s request of
        None \<Rightarrow> None
      | Some (a, user) \<Rightarrow> Some (s, \<lparr>status = 200, body = user_json s user\<rparr>))"

definition patch_user_pro :: "store \<Rightarrow> request \<Rightarrow> (store \<times> response) option" where
  "patch_user_pro s request =
     (case lookup_user s request of
        None \<Rightarrow> None
      | Some (a, user) \<Rightarrow>
          if pro user then Some (s, error_response 400 ''Pro plan is already activated.'')
          else (let s' = s\<lparr>users := (users s)[a := user\<lparr>pro := True\<rparr>]\<rparr>
                in Some (s', \<lparr>status = 200, body = user_json s' (users s' ! a)\<rparr>)))"

definition get_todos :: "store \<Rightarrow> request \<Rightarrow> (store \<times> response) option" where
  "get_todos s request =
     (case lookup_user s request of
        None \<Rightarrow> None
      | Some (a, user) \<Rightarrow> Some (s, \<lparr>status = 200, body = JTodos (objects (heap s) (todos user))\<rparr>))"

definition post_todos :: "string \<Rightarrow> int \<Rightarrow> store \<Rightarrow> request \<Rightarrow> (store \<times> response) option" where
  "post_todos uuid clock s request =
     (case lookup_user s request of
        None \<Rightarrow> None
      | Some (a, user) \<Rightarrow>
          (let newTodo = \<lparr>todo_id = uuid, title = b_title request,
                           deadline = Date (b_deadline request), todo_done = False,
                           created_at = Now clock\<rparr>;
               r = allocated s;
               s' = s\<lparr>users := (users s)[a := user\<lparr>todos := todos user @ [r]\<rparr>],
                       heap := (heap s)(r := Some newTodo),
                       allocated := Suc r\<rparr>
           in Some (s', \<lparr>status = 201, body = JTodo newTodo\<rparr>)))"

definition put_todo :: "store \<Rightarrow> request \<Rightarrow> (store \<times> response) option" where
  "put_todo s request =
     (case lookup_todo s request of
        None \<Rightarrow> None
      | Some (r, todo) \<Rightarrow>
          (let todo' = todo\<lparr>title := b_title request, deadline := Date (b_deadline request)\<rparr>
           in Some (s\<lparr>heap := (heap s)(r := Some todo')\<rparr>, \<lparr>status = 200, body = JTodo todo'\<rparr>)))"

definition patch_todo_done :: "store \<Rightarrow> request \<Rightarrow> (store \<times> response) option" where
  "patch_todo_done s request =
     (case lookup_todo s request of
        None \<Rightarrow> None
      | Some (r, todo) \<Rightarrow>
          (let todo' = todo\<lparr>todo_done := True\<rparr>
           in Some (s\<lparr>heap := (heap s)(r := Some todo')\<rparr>, \<lparr>status = 200, body = JTodo todo'\<rparr>)))"

definition delete_todo :: "store \<Rightarrow> request \<Rightarrow> (store \<times> response) option" where
  "delete_todo s request =
     (case lookup_user s request of
        None \<Rightarrow> None
      | Some (a, user) \<Rightarrow>
          (case ctx_todo request of
             None \<Rightarrow> Some (s, error_response 404 ''Todo not found'')
           | Some todo \<Rightarrow>
               (case indexOf (todos user) todo of
                  None \<Rightarrow> Some (s, error_response 404 ''Todo not found'')
                | Some todoIndex \<Rightarrow>
                    Some (s\<lparr>users := (users s)[a := user\<lparr>todos := splice1 todoIndex (todos user)\<rparr>]\<rparr>,
                          \<lparr>status = 204, body = JEmpty\<rparr>))))"

subsection \<open>Dispatcher\<close>

datatype route =
    POST_users | GET_user | PATCH_user_pro | GET_todos
  | POST_todos | PUT_todo | PATCH_todo_done | DELETE_todo

text \<open>Running one middleware after another: the next one sees the request object the
  previous one left.\<close>

definition and_then :: "'a outcome \<Rightarrow> ('a \<Rightarrow> 'b outcome) \<Rightarrow> 'b outcome" where
  "and_then m f = (case m of Respond resp \<Rightarrow> Respond resp | Throw \<Rightarrow> Throw | Next x \<Rightarrow> f x)"

text \<open>Express answers an uncaught exception with status 500.\<close>

definition internal_error :: response where
  "internal_error = error_response 500 ''TypeError''"

definition finish ::
  "store \<Rightarrow> request outcome \<Rightarrow> (store \<Rightarrow> request \<Rightarrow> (store \<times> response) option) \<Rightarrow> store \<times> response" where
  "finish s guards handler =
     (case guards of
        Respond resp \<Rightarrow> (s, resp)
      | Throw \<Rightarrow> (s, internal_error)
      | Next request \<Rightarrow> (case handler s request of None \<Rightarrow> (s, internal_error) | Some out \<Rightarrow> out))"

text \<open>An incoming request: the route, the request as Express parsed it, and what the
  environment gives during the request, namely the value \<open>uuidv4()\<close> returns and the clock.
  Express builds a new request object, so \<open>user\<close> and \<open>todo\<close> start undefined.\<close>

record event =
  ev_route :: route
  ev_request :: request
  ev_uuid :: string
  ev_clock :: int

definition incoming :: "request \<Rightarrow> request" where
  "incoming request = request\<lparr>ctx_user := None, ctx_todo := None\<rparr>"

definition handle :: "(string \<Rightarrow> nat \<Rightarrow> bool) \<Rightarrow> store \<Rightarrow> event \<Rightarrow> store \<times> response" where
  "handle validate s ev =
     (let request = incoming (ev_request ev) in
      case ev_route ev of
        POST_users \<Rightarrow> finish s (Next request) (post_users (ev_uuid ev))
      | GET_user \<Rightarrow> finish s (findUserById s request) get_user
      | PATCH_user_pro \<Rightarrow> finish s (findUserById s request) patch_user_pro
      | GET_todos \<Rightarrow> finish s (checksExistsUserAccount s request) get_todos
      | POST_todos \<Rightarrow>
          finish s (and_then (checksExistsUserAccount s request) (checksCreateTodosUserAvailability s))
            (post_todos (ev_uuid ev) (ev_clock ev))
      | PUT_todo \<Rightarrow> finish s (checksTodoExists validate s request) put_todo
      | PATCH_todo_done \<Rightarrow> finish s (checksTodoExists validate s request) patch_todo_done
      | DELETE_todo \<Rightarrow>
          finish s (and_then (checksExistsUserAccount s request) (checksTodoExists validate s))
            delete_todo)"

text \<open>The store after a sequence of requests.\<close>

fun run :: "(string \<Rightarrow> nat \<Rightarrow> bool) \<Rightarrow> store \<Rightarrow> event list \<Rightarrow> store" where
  "run validate s [] = s"
| "run validate s (ev # evs) = run validate (fst (handle validate s ev)) evs"

subsection \<open>A small run\<close>

text \<open>Concrete requests and stores on which the theorems below are exercised: Ana signs
  up and adds one task; \<open>ana_store\<close> is the store after these two requests.\<close>

definition blank :: request where
  "blank = \<lparr>h_username = None, p_id = [], b_name = JUndefined, b_username = JUndefined,
            b_title = JUndefined, b_deadline = JUndefined, ctx_user = None, ctx_todo = None\<rparr>"

definition ana_id :: string where
  "ana_id = ''9b1deb4d-3b7d-4bad-9bdd-2b0d7b3dcb6d''"

definition task_id :: string where
  "task_id = ''f47ac10b-58cc-4372-a567-0e02b2c3d479''"

text \<open>A version-1 UUID (the version digit, the first of the third group, is \<open>1\<close>).\<close>

definition v1_id :: string where
  "v1_id = ''6ba7b810-9dad-11d1-80b4-00c04fd430c8''"

definition ask :: "string option \<Rightarrow> string \<Rightarrow> request" where
  "ask un i = blank\<lparr>h_username := un, p_id := i, b_title := JString ''y'',
                    b_deadline := JString ''2031-01-01''\<rparr>"

definition sign_up :: event where
  "sign_up = \<lparr>ev_route = POST_users,
              ev_request = blank\<lparr>b_name := JString ''Ana'', b_username := JString ''ana''\<rparr>,
              ev_uuid = ana_id, ev_clock = 0\<rparr>"

text \<open>\<open>POST /users\<close> with body \<open>{"username": ["a"]}\<close>.\<close>

definition sign_up_array :: event where
  "sign_up_array = \<lparr>ev_route = POST_users,
                    ev_request = blank\<lparr>b_username := JArray [JString ''a'']\<rparr>,
                    ev_uuid = ana_id, ev_clock = 0\<rparr>"

definition anonymous :: event where
  "anonymous = \<lparr>ev_route = POST_users, ev_request = blank, ev_uuid = ana_id, ev_clock = 0\<rparr>"

definition add_task :: event where
  "add_task = \<lparr>ev_route = POST_todos,
               ev_request = blank\<lparr>h_username := Some ''ana'', b_title := JString ''x'',
                                  b_deadline := JString ''2030-01-01''\<rparr>,
               ev_uuid = task_id, ev_clock = 1\<rparr>"

definition on_task :: "route \<Rightarrow> string \<Rightarrow> event" where
  "on_task rt i = \<lparr>ev_route = rt, ev_request = ask (Some ''ana'') i, ev_uuid = [], ev_clock = 2\<rparr>"

definition upgrade :: event where
  "upgrade = \<lparr>ev_route = PATCH_user_pro, ev_request = ask None ana_id, ev_uuid = [], ev_clock = 3\<rparr>"

definition ana :: user where
  "ana = \<lparr>user_id = ana_id, name = JString ''Ana'', username = JString ''ana'', pro = False, todos = [0]\<rparr>"

definition task :: todo where
  "task = \<lparr>todo_id = task_id, title = JString ''x'', deadline = Date (JString ''2030-01-01''),
           todo_done = False, created_at = Now 1\<rparr>"

definition ana_store :: store where
  "ana_store = \<lparr>users = [ana], heap = (\<lambda>r. None)(0 := Some task), allocated = 1\<rparr>"


definition ana_pro :: store where
  "ana_pro = \<lparr>users = [ana\<lparr>pro := True, todos := [0, 1, 2, 3, 4, 5, 6, 7, 8, 9]\<rparr>],
              heap = (\<lambda>r. if r < 10 then Some task else None), allocated = 10\<rparr>"

subsection \<open>Invariant of the store\<close>

text \<open>Every reference held by some \<open>todos\<close> array is held once, was allocated and
  points into the heap; the usernames that are primitive values are pairwise different.\<close>

definition all_refs :: "store \<Rightarrow> ref list" where
  "all_refs s = concat (map todos (users s))"

definition store_inv :: "store \<Rightarrow> bool" where
  "store_inv s \<longleftrightarrow> distinct (all_refs s)
           \<and> (\<forall>r \<in> set (all_refs s). r < allocated s \<and> heap s r \<noteq> None)
           \<and> distinct (filter primitive (map username (users s)))"

section \<open>Properties\<close>

subsection \<open>Strict equality\<close>

lemma header_simps [simp]: "header None = JUndefined" "header (Some v) = JString v"
  by (simp_all add: header_def)

lemma primitive_header: "primitive (header h)"
  by (cases h) (simp_all add: header_def)

lemma strict_eq_header [simp]: "strict_eq v (header h) \<longleftrightarrow> v = header h"
  using primitive_header [of h] by (auto simp: strict_eq_def)

lemma strict_eq_string [simp]:
  "strict_eq v (JString x) \<longleftrightarrow> v = JString x"
  "strict_eq v JUndefined \<longleftrightarrow> v = JUndefined"
  by (auto simp: strict_eq_def)

lemma strict_eq_primitive: "primitive b \<Longrightarrow> strict_eq a b \<longleftrightarrow> a = b"
  by (auto simp: strict_eq_def)

lemma strict_eq_object: "\<not> primitive b \<Longrightarrow> \<not> strict_eq a b"
  by (auto simp: strict_eq_def)

lemma header_inject [simp]: "header h = header h' \<longleftrightarrow> h = h'"
  by (cases h; cases h') (simp_all add: header_def)

subsection \<open>Searching and the guards\<close>

lemma first_index_SomeD:
  "first_index P xs = Some i \<Longrightarrow> i < length xs \<and> P (xs ! i) \<and> (\<forall>j<i. \<not> P (xs ! j))"
proof (induction xs arbitrary: i)
  case Nil
  then show ?case by simp
next
  case (Cons x xs)
  show ?case
  proof (cases "P x")
    case True
    with Cons.prems show ?thesis by simp
  next
    case False
    with Cons.prems obtain k where k: "first_index P xs = Some k" "i = Suc k"
      by auto
    from Cons.IH [OF k(1)] False k(2) show ?thesis
      by (auto simp: less_Suc_eq_0_disj)
  qed
qed

lemma first_index_None_iff: "first_index P xs = None \<longleftrightarrow> (\<forall>x \<in> set xs. \<not> P x)"
  by (induction xs) auto

lemma first_index_unique:
  "i < length xs \<Longrightarrow> P (xs ! i) \<Longrightarrow> \<forall>j<length xs. P (xs ! j) \<longrightarrow> j = i \<Longrightarrow> first_index P xs = Some i"
proof -
  assume i: "i < length xs" "P (xs ! i)" and u: "\<forall>j<length xs. P (xs ! j) \<longrightarrow> j = i"
  from i have "first_index P xs \<noteq> None"
    by (auto simp: first_index_None_iff)
  then obtain k where k: "first_index P xs = Some k" by auto
  from first_index_SomeD [OF k] u have "k = i" by blast
  with k show ?thesis by simp
qed

lemma attach_last:
  "attach h i a rs request =
     (if filter (has_id h i) rs = [] then request
      else request\<lparr>ctx_user := Some a, ctx_todo := Some (last (filter (has_id h i) rs))\<rparr>)"
  by (induction rs arbitrary: request) auto

lemma checksTodoExists_Next:
  assumes "checksTodoExists validate s request = Next request'"
  shows "\<exists>a r. first_index (\<lambda>u. username u = header (h_username request)) (users s) = Some a
           \<and> validate (p_id request) 4
           \<and> r = last (filter (has_id (heap s) (p_id request)) (todos (users s ! a)))
           \<and> r \<in> set (todos (users s ! a)) \<and> has_id (heap s) (p_id request) r
           \<and> request' = request\<lparr>ctx_user := Some a, ctx_todo := Some r\<rparr>"
proof -
  from assms have v: "validate (p_id request) 4"
    by (auto simp: checksTodoExists_def Let_def split: if_splits)
  from assms v obtain a where a: "first_index (\<lambda>u. username u = header (h_username request)) (users s) = Some a"
    by (auto simp: checksTodoExists_def Let_def split: option.splits)
  let ?rs = "filter (has_id (heap s) (p_id request)) (todos (users s ! a))"
  from assms v a have ex: "\<exists>r \<in> set (todos (users s ! a)). has_id (heap s) (p_id request) r"
    and eq: "request' = attach (heap s) (p_id request) a (todos (users s ! a)) request"
    by (auto simp: checksTodoExists_def Let_def split: if_splits)
  from ex have ne: "?rs \<noteq> []" by (auto simp: filter_empty_conv)
  then have "last ?rs \<in> set ?rs" by (rule last_in_set)
  then have "last ?rs \<in> set (todos (users s ! a))" "has_id (heap s) (p_id request) (last ?rs)"
    by auto
  moreover from eq ne have "request' = request\<lparr>ctx_user := Some a, ctx_todo := Some (last ?rs)\<rparr>"
    by (simp add: attach_last)
  ultimately show ?thesis using a v by blast
qed

text \<open>
  Claim C2. \<open>checksTodoExists\<close> decides in this order. An id the validator refuses is
  answered 400 "Id is not uuid", whatever the store holds. For an accepted id, no user
  with the header's username gives 404 "User not found". For an accepted id and a user,
  no to-do with the id in that user's list gives 404 "Todo not found". Otherwise the
  guard forwards the request with the user and one of the user's to-dos with that id
  attached.
\<close>

theorem checksTodoExists_priority:
  "(\<not> validate (p_id request) 4 \<longrightarrow>
      checksTodoExists validate s request = Respond (error_response 400 ''Id is not uuid''))
   \<and> (validate (p_id request) 4 \<and> (\<forall>u \<in> set (users s). username u \<noteq> header (h_username request)) \<longrightarrow>
      checksTodoExists validate s request = Respond (error_response 404 ''User not found''))
   \<and> (validate (p_id request) 4
        \<and> first_index (\<lambda>u. username u = header (h_username request)) (users s) = Some a
        \<and> (\<forall>r \<in> set (todos (users s ! a)). \<not> has_id (heap s) (p_id request) r) \<longrightarrow>
      checksTodoExists validate s request = Respond (error_response 404 ''Todo not found''))
   \<and> (validate (p_id request) 4
        \<and> first_index (\<lambda>u. username u = header (h_username request)) (users s) = Some a
        \<and> (\<exists>r \<in> set (todos (users s ! a)). has_id (heap s) (p_id request) r) \<longrightarrow>
      (\<exists>r \<in> set (todos (users s ! a)). has_id (heap s) (p_id request) r
         \<and> checksTodoExists validate s request
             = Next (request\<lparr>ctx_user := Some a, ctx_todo := Some r\<rparr>)))"
proof (intro conjI impI)
  assume "\<not> validate (p_id request) 4"
  then show "checksTodoExists validate s request = Respond (error_response 400 ''Id is not uuid'')"
    by (simp add: checksTodoExists_def)
next
  assume "validate (p_id request) 4 \<and> (\<forall>u \<in> set (users s). username u \<noteq> header (h_username request))"
  then have "validate (p_id request) 4"
    and "first_index (\<lambda>u. username u = header (h_username request)) (users s) = None"
    by (simp_all add: first_index_None_iff)
  then show "checksTodoExists validate s request = Respond (error_response 404 ''User not found'')"
    by (simp add: checksTodoExists_def)
next
  assume "validate (p_id request) 4
        \<and> first_index (\<lambda>u. username u = header (h_username request)) (users s) = Some a
        \<and> (\<forall>r \<in> set (todos (users s ! a)). \<not> has_id (heap s) (p_id request) r)"
  then show "checksTodoExists validate s request = Respond (error_response 404 ''Todo not found'')"
    by (simp add: checksTodoExists_def)
next
  assume h: "validate (p_id request) 4
        \<and> first_index (\<lambda>u. username u = header (h_username request)) (users s) = Some a
        \<and> (\<exists>r \<in> set (todos (users s ! a)). has_id (heap s) (p_id request) r)"
  let ?rs = "filter (has_id (heap s) (p_id request)) (todos (users s ! a))"
  from h have ne: "?rs \<noteq> []" by (auto simp: filter_empty_conv)
  then have "last ?rs \<in> set ?rs" by (rule last_in_set)
  then have m: "last ?rs \<in> set (todos (users s ! a))" "has_id (heap s) (p_id request) (last ?rs)"
    by auto
  from h ne have "checksTodoExists validate s request
      = Next (request\<lparr>ctx_user := Some a, ctx_todo := Some (last ?rs)\<rparr>)"
    by (simp add: checksTodoExists_def attach_last)
  with m show "\<exists>r \<in> set (todos (users s ! a)). has_id (heap s) (p_id request) r
         \<and> checksTodoExists validate s request
             = Next (request\<lparr>ctx_user := Some a, ctx_todo := Some r\<rparr>)"
    by blast
qed


subsection \<open>Handlers behind their guards\<close>

lemma incoming_fields [simp]:
  "h_username (incoming request) = h_username request"
  "p_id (incoming request) = p_id request"
  "b_name (incoming request) = b_name request"
  "b_username (incoming request) = b_username request"
  "b_title (incoming request) = b_title request"
  "b_deadline (incoming request) = b_deadline request"
  by (simp_all add: incoming_def)

lemma lookup_user_ctx:
  "a < length (users s) \<Longrightarrow> lookup_user s (request\<lparr>ctx_user := Some a\<rparr>) = Some (a, users s ! a)"
  by (simp add: lookup_user_def)

lemma checksExistsUserAccount_found:
  "first_index (\<lambda>u. username u = header (h_username request)) (users s) = Some a \<Longrightarrow>
     checksExistsUserAccount s request = Next (request\<lparr>ctx_user := Some a\<rparr>)"
  by (simp add: checksExistsUserAccount_def)

lemma checksExistsUserAccount_Next:
  "checksExistsUserAccount s request = Next request' \<Longrightarrow>
     \<exists>a. first_index (\<lambda>u. username u = header (h_username request)) (users s) = Some a
       \<and> a < length (users s) \<and> request' = request\<lparr>ctx_user := Some a\<rparr>"
  by (auto simp: checksExistsUserAccount_def split: option.splits dest: first_index_SomeD)

lemma handle_post_users:
  assumes "ev_route ev = POST_users"
  shows "handle validate s ev =
     (if \<exists>u \<in> set (users s). strict_eq (username u) (b_username (ev_request ev))
      then (s, error_response 400 ''Username already exists'')
      else (s\<lparr>users := users s @ [\<lparr>user_id = ev_uuid ev, name = b_name (ev_request ev),
                username = b_username (ev_request ev), pro = False, todos = []\<rparr>]\<rparr>,
            \<lparr>status = 201,
             body = JUser \<lparr>user_id = ev_uuid ev, name = b_name (ev_request ev),
                username = b_username (ev_request ev), pro = False, todos = []\<rparr> []\<rparr>))"
  using assms
  by (simp add: handle_def finish_def post_users_def user_json_def Let_def)

text \<open>
  Claim C4, as stated: a \<open>POST /users\<close> whose username some user already has is
  answered 400 and changes nothing. Not so when the username is an array: the request
  \<open>{"username": ["a"]}\<close>, sent to the store an identical request has left, finds a user
  whose username is \<open>["a"]\<close>, and still it is answered 201 and a second such user is
  appended. The duplicate check is \<open>===\<close>, which for arrays and objects compares
  references, and the array of the second request is a new object.
\<close>

theorem post_users_duplicate_counterexample:
  "username (users (fst (handle uuid_validate empty_store sign_up_array)) ! 0)
     = b_username (ev_request sign_up_array)
   \<and> status (snd (handle uuid_validate
                   (fst (handle uuid_validate empty_store sign_up_array)) sign_up_array)) = 201
   \<and> map username
         (users (fst (handle uuid_validate
                   (fst (handle uuid_validate empty_store sign_up_array)) sign_up_array)))
       = [JArray [JString ''a''], JArray [JString ''a'']]"
  by (simp add: handle_post_users sign_up_array_def blank_def empty_store_def strict_eq_def)

text \<open>
  Claim C4, amended. \<open>POST /users\<close>: when the requested username is a primitive value
  (a string, a number, a boolean, \<open>null\<close>, or absent) and some user already has it, the
  answer is 400 "Username already exists" and the store is unchanged, whatever the
  name. When no user has the requested username, and also whenever the requested
  username is an array or an object, one user is appended and returned with 201, not
  pro and with no tasks.
\<close>

theorem post_users_duplicate:
  assumes "ev_route ev = POST_users"
  shows "(primitive (b_username (ev_request ev))
            \<and> (\<exists>u \<in> set (users s). username u = b_username (ev_request ev)) \<longrightarrow>
            handle validate s ev = (s, error_response 400 ''Username already exists''))
       \<and> ((\<forall>u \<in> set (users s). username u \<noteq> b_username (ev_request ev)) \<longrightarrow>
            (\<exists>u. handle validate s ev
                    = (s\<lparr>users := users s @ [u]\<rparr>, \<lparr>status = 201, body = JUser u []\<rparr>)
                \<and> user_id u = ev_uuid ev \<and> name u = b_name (ev_request ev)
                \<and> username u = b_username (ev_request ev)
                \<and> pro u = False \<and> todos u = []))
       \<and> (\<not> primitive (b_username (ev_request ev)) \<longrightarrow>
            (\<exists>u. handle validate s ev
                    = (s\<lparr>users := users s @ [u]\<rparr>, \<lparr>status = 201, body = JUser u []\<rparr>)
                \<and> user_id u = ev_uuid ev \<and> name u = b_name (ev_request ev)
                \<and> username u = b_username (ev_request ev)
                \<and> pro u = False \<and> todos u = []))"
proof (intro conjI impI)
  assume "primitive (b_username (ev_request ev))
            \<and> (\<exists>u \<in> set (users s). username u = b_username (ev_request ev))"
  then have "\<exists>u \<in> set (users s). strict_eq (username u) (b_username (ev_request ev))"
    by (simp add: strict_eq_primitive)
  then show "handle validate s ev = (s, error_response 400 ''Username already exists'')"
    by (simp add: handle_post_users [OF assms])
next
  assume "\<forall>u \<in> set (users s). username u \<noteq> b_username (ev_request ev)"
  then have "\<not> (\<exists>u \<in> set (users s). strict_eq (username u) (b_username (ev_request ev)))"
    by (simp add: strict_eq_def)
  then show "\<exists>u. handle validate s ev
                    = (s\<lparr>users := users s @ [u]\<rparr>, \<lparr>status = 201, body = JUser u []\<rparr>)
                \<and> user_id u = ev_uuid ev \<and> name u = b_name (ev_request ev)
                \<and> username u = b_username (ev_request ev)
                \<and> pro u = False \<and> todos u = []"
    by (simp add: handle_post_users [OF assms])
next
  assume "\<not> primitive (b_username (ev_request ev))"
  then have "\<not> (\<exists>u \<in> set (users s). strict_eq (username u) (b_username (ev_request ev)))"
    by (simp add: strict_eq_object)
  then show "\<exists>u. handle validate s ev
                    = (s\<lparr>users := users s @ [u]\<rparr>, \<lparr>status = 201, body = JUser u []\<rparr>)
                \<and> user_id u = ev_uuid ev \<and> name u = b_name (ev_request ev)
                \<and> username u = b_username (ev_request ev)
                \<and> pro u = False \<and> todos u = []"
    by (simp add: handle_post_users [OF assms])
qed

text \<open>
  Claim C5. \<open>PATCH /users/:id/pro\<close> on an existing user: when the user is already pro
  the answer is 400 "Pro plan is already activated." and the whole store is unchanged;
  otherwise the user's \<open>pro\<close> becomes true and the updated user is returned with 200.
\<close>

theorem patch_user_pro_once:
  assumes "ev_route ev = PATCH_user_pro"
    and "first_index (\<lambda>u. user_id u = p_id (ev_request ev)) (users s) = Some a"
  shows "(pro (users s ! a) \<longrightarrow>
            handle validate s ev = (s, error_response 400 ''Pro plan is already activated.''))
       \<and> (\<not> pro (users s ! a) \<longrightarrow>
            handle validate s ev
              = (s\<lparr>users := (users s)[a := (users s ! a)\<lparr>pro := True\<rparr>]\<rparr>,
                 \<lparr>status = 200,
                  body = JUser ((users s ! a)\<lparr>pro := True\<rparr>) (objects (heap s) (todos (users s ! a)))\<rparr>))"
proof -
  from first_index_SomeD [OF assms(2)] have a: "a < length (users s)" by simp
  have g: "findUserById s (incoming (ev_request ev))
             = Next ((incoming (ev_request ev))\<lparr>ctx_user := Some a\<rparr>)"
    using assms(2) by (simp add: findUserById_def incoming_def)
  show ?thesis
    using assms(1) a
    by (simp add: handle_def g finish_def patch_user_pro_def lookup_user_ctx user_json_def Let_def)
qed


lemma first_index_mem:
  "x \<in> set xs \<Longrightarrow> \<exists>k. first_index (\<lambda>y. y = x) xs = Some k"
  by (cases "first_index (\<lambda>y. y = x) xs") (auto simp: first_index_None_iff)

text \<open>
  Claim C9. In \<open>DELETE /todos/:id\<close>, once \<open>checksExistsUserAccount\<close> and
  \<open>checksTodoExists\<close> have both forwarded, the to-do attached to the request is an
  element of the attached user's list, so \<open>indexOf\<close> finds it and the handler answers
  204: its own 404 branch is never taken. This holds in every store.
\<close>

theorem delete_todo_not_found_unreachable:
  assumes "ev_route ev = DELETE_todo"
    and "checksExistsUserAccount s (incoming (ev_request ev)) = Next request1"
    and "checksTodoExists validate s request1 = Next request2"
  shows "\<exists>a r k. ctx_user request2 = Some a \<and> a < length (users s) \<and> ctx_todo request2 = Some r
           \<and> r \<in> set (todos (users s ! a))
           \<and> indexOf (todos (users s ! a)) r = Some k
           \<and> delete_todo s request2
               = Some (s\<lparr>users := (users s)[a := (users s ! a)\<lparr>todos := splice1 k (todos (users s ! a))\<rparr>]\<rparr>,
                       \<lparr>status = 204, body = JEmpty\<rparr>)
           \<and> status (snd (handle validate s ev)) = 204"
proof -
  from checksTodoExists_Next [OF assms(3)] obtain a r where
    a: "first_index (\<lambda>u. username u = header (h_username request1)) (users s) = Some a"
    and r: "r \<in> set (todos (users s ! a))"
    and eq: "request2 = request1\<lparr>ctx_user := Some a, ctx_todo := Some r\<rparr>"
    by blast
  from first_index_SomeD [OF a] have al: "a < length (users s)" by simp
  from first_index_mem [OF r] obtain k where k: "indexOf (todos (users s ! a)) r = Some k"
    by (auto simp: indexOf_def)
  have del: "delete_todo s request2
      = Some (s\<lparr>users := (users s)[a := (users s ! a)\<lparr>todos := splice1 k (todos (users s ! a))\<rparr>]\<rparr>,
              \<lparr>status = 204, body = JEmpty\<rparr>)"
    using al k by (simp add: delete_todo_def lookup_user_def eq)
  have "status (snd (handle validate s ev)) = 204"
    using assms(1) by (simp add: handle_def assms(2) and_then_def assms(3) finish_def del)
  with al r k eq del show ?thesis by simp
qed

lemma one_of_mono: "one_of cs s = Some r \<Longrightarrow> set cs \<subseteq> set ds \<Longrightarrow> one_of ds s = Some r"
  by (cases s) (auto split: if_splits)

lemma uuid_pattern_mono:
  assumes "uuid_pattern vs s" and "set vs \<subseteq> set ws"
  shows "uuid_pattern ws s"
  using assms unfolding uuid_pattern_def
  by (clarsimp simp: bind_eq_Some_conv) (frule (1) one_of_mono, simp)

lemma is_uuid_v4_validate: "is_uuid_v4 s \<Longrightarrow> uuid_validate s v"
  unfolding is_uuid_v4_def uuid_validate_def
  by (rule disjI1, erule uuid_pattern_mono) simp

lemma checksTodoExists_400_iff:
  "checksTodoExists validate s request = Respond (error_response 400 ''Id is not uuid'')
     \<longleftrightarrow> \<not> validate (p_id request) 4"
  by (auto simp: checksTodoExists_def error_response_def Let_def split: option.splits)


subsection \<open>The invariant holds after every sequence of requests\<close>

lemma concat_map_update:
  "a < length xs \<Longrightarrow>
     concat (map f (xs[a := x]))
       = concat (map f (take a xs)) @ f x @ concat (map f (drop (Suc a) xs))"
  by (simp add: upd_conv_take_nth_drop)

lemma concat_map_nth:
  "a < length xs \<Longrightarrow>
     concat (map f xs)
       = concat (map f (take a xs)) @ f (xs ! a) @ concat (map f (drop (Suc a) xs))"
  using concat_map_update [of a xs f "xs ! a"] by simp

lemma map_update_same: "f x = f (xs ! a) \<Longrightarrow> map f (xs[a := x]) = map f xs"
  by (induction xs arbitrary: a) (auto split: nat.splits)

lemma inv_empty: "store_inv empty_store"
  by (simp add: store_inv_def all_refs_def empty_store_def)

lemma inv_post_users:
  assumes "store_inv s" and "post_users uuid s request = Some (s', resp)"
  shows "store_inv s'"
proof (cases "\<exists>user \<in> set (users s). strict_eq (username user) (b_username request)")
  case True
  with assms show ?thesis by (simp add: post_users_def)
next
  case False
  with assms(2) have s': "s' = s\<lparr>users := users s @ [\<lparr>user_id = uuid, name = b_name request,
                           username = b_username request, pro = False, todos = []\<rparr>]\<rparr>"
    by (simp add: post_users_def Let_def)
  have r: "all_refs s' = all_refs s"
    by (simp add: s' all_refs_def)
  from False have "primitive (b_username request) \<Longrightarrow> b_username request \<notin> username ` set (users s)"
    by (auto simp: strict_eq_def)
  with assms(1) have u: "distinct (filter primitive (map username (users s')))"
    by (auto simp: s' store_inv_def)
  from assms(1) r u show ?thesis
    by (simp add: store_inv_def s')
qed

lemma inv_patch_user_pro:
  assumes "store_inv s" and "patch_user_pro s request = Some (s', resp)"
  shows "store_inv s'"
proof (cases "s' = s")
  case True
  with assms(1) show ?thesis by simp
next
  case False
  with assms(2) obtain a where
    s': "s' = s\<lparr>users := (users s)[a := (users s ! a)\<lparr>pro := True\<rparr>]\<rparr>"
    by (auto simp: patch_user_pro_def lookup_user_def Let_def split: option.splits if_splits)
  have "all_refs s' = all_refs s" "map username (users s') = map username (users s)"
    by (simp_all add: s' all_refs_def map_update_same)
  with assms(1) show ?thesis
    by (simp add: store_inv_def s')
qed

lemma inv_post_todos:
  assumes "store_inv s" and "post_todos uuid clock s request = Some (s', resp)"
  shows "store_inv s'"
proof -
  from assms(2) obtain a where a: "a < length (users s)"
    and s': "s' = s\<lparr>users := (users s)[a := (users s ! a)\<lparr>todos := todos (users s ! a) @ [allocated s]\<rparr>],
                    heap := (heap s)(allocated s := Some \<lparr>todo_id = uuid, title = b_title request,
                           deadline = Date (b_deadline request), todo_done = False,
                           created_at = Now clock\<rparr>),
                    allocated := Suc (allocated s)\<rparr>"
    by (auto simp: post_todos_def lookup_user_def Let_def split: option.splits if_splits)
  let ?f = "todos"
  have old: "all_refs s = concat (map ?f (take a (users s))) @ ?f (users s ! a)
              @ concat (map ?f (drop (Suc a) (users s)))"
    unfolding all_refs_def using a by (rule concat_map_nth)
  have new: "all_refs s' = concat (map ?f (take a (users s))) @ (?f (users s ! a) @ [allocated s])
              @ concat (map ?f (drop (Suc a) (users s)))"
    unfolding all_refs_def s' using a by (simp add: concat_map_update)
  from assms(1) have fresh: "allocated s \<notin> set (all_refs s)"
    by (auto simp: store_inv_def)
  from assms(1) have d: "distinct (all_refs s)" by (simp add: store_inv_def)
  have d': "distinct (all_refs s')"
    using d fresh unfolding old new by auto
  have set': "set (all_refs s') = insert (allocated s) (set (all_refs s))"
    unfolding old new by auto
  have b': "\<forall>r \<in> set (all_refs s'). r < allocated s' \<and> heap s' r \<noteq> None"
    using assms(1) unfolding set' by (auto simp: store_inv_def s')
  have u': "map username (users s') = map username (users s)"
    by (simp add: s' map_update_same)
  from d' b' u' assms(1) show ?thesis by (simp add: store_inv_def)
qed

lemma inv_put_todo:
  assumes "store_inv s" and "put_todo s request = Some (s', resp)"
  shows "store_inv s'"
  using assms
  by (auto simp: store_inv_def all_refs_def put_todo_def lookup_todo_def Let_def split: option.splits)

lemma inv_patch_todo_done:
  assumes "store_inv s" and "patch_todo_done s request = Some (s', resp)"
  shows "store_inv s'"
  using assms
  by (auto simp: store_inv_def all_refs_def patch_todo_done_def lookup_todo_def Let_def split: option.splits)

lemma set_splice1: "set (splice1 k xs) \<subseteq> set xs"
  by (auto simp: splice1_def dest: in_set_takeD in_set_dropD)

lemma distinct_splice1: "distinct xs \<Longrightarrow> distinct (splice1 k xs)"
proof -
  assume d: "distinct xs"
  have "xs = take k xs @ drop k xs" by simp
  with d have "distinct (take k xs @ drop k xs)" by simp
  then have "set (take k xs) \<inter> set (drop k xs) = {}" by (simp only: distinct_append)
  moreover have "set (drop (Suc k) xs) \<subseteq> set (drop k xs)"
    by (rule set_drop_subset_set_drop) simp
  ultimately have "set (take k xs) \<inter> set (drop (Suc k) xs) = {}" by blast
  with d show ?thesis by (simp add: splice1_def)
qed

lemma inv_delete_todo:
  assumes "store_inv s" and "delete_todo s request = Some (s', resp)"
  shows "store_inv s'"
proof (cases "s' = s")
  case True
  with assms(1) show ?thesis by simp
next
  case False
  with assms(2) obtain a k where a: "a < length (users s)"
    and s': "s' = s\<lparr>users := (users s)[a := (users s ! a)\<lparr>todos := splice1 k (todos (users s ! a))\<rparr>]\<rparr>"
    by (auto simp: delete_todo_def lookup_user_def split: option.splits if_splits)
  let ?f = "todos"
  have old: "all_refs s = concat (map ?f (take a (users s))) @ ?f (users s ! a)
              @ concat (map ?f (drop (Suc a) (users s)))"
    unfolding all_refs_def using a by (rule concat_map_nth)
  have new: "all_refs s' = concat (map ?f (take a (users s))) @ splice1 k (?f (users s ! a))
              @ concat (map ?f (drop (Suc a) (users s)))"
    unfolding all_refs_def s' using a by (simp add: concat_map_update)
  from assms(1) have d: "distinct (all_refs s)" by (simp add: store_inv_def)
  have d': "distinct (all_refs s')"
    using d set_splice1 [of k "?f (users s ! a)"] distinct_splice1 [of "?f (users s ! a)" k]
    unfolding old new by auto
  have sub: "set (all_refs s') \<subseteq> set (all_refs s)"
    using set_splice1 [of k "?f (users s ! a)"] unfolding old new by auto
  have b': "\<forall>r \<in> set (all_refs s'). r < allocated s' \<and> heap s' r \<noteq> None"
    using assms(1) sub by (auto simp: store_inv_def s')
  have u': "map username (users s') = map username (users s)"
    by (simp add: s' map_update_same)
  from d' b' u' assms(1) show ?thesis by (simp add: store_inv_def)
qed

lemma inv_finish:
  assumes "store_inv s" and "\<And>request s' resp. handler s request = Some (s', resp) \<Longrightarrow> store_inv s'"
  shows "store_inv (fst (finish s guards handler))"
  using assms by (auto simp: finish_def split: outcome.splits option.splits)

lemma inv_handle: "store_inv s \<Longrightarrow> store_inv (fst (handle validate s ev))"
  unfolding handle_def Let_def
  by (cases "ev_route ev")
     (auto intro!: inv_finish
        elim: inv_post_users inv_patch_user_pro inv_post_todos inv_put_todo
          inv_patch_todo_done inv_delete_todo
        simp: get_user_def get_todos_def split: option.splits)

lemma inv_run: "store_inv s \<Longrightarrow> store_inv (run validate s evs)"
  by (induction evs arbitrary: s) (auto simp: inv_handle)

lemma inv_reachable: "store_inv (run validate empty_store evs)"
  by (rule inv_run) (rule inv_empty)


subsection \<open>Usernames\<close>

lemma inv_patch_user_pro_users:
  "patch_user_pro s request = Some (s', resp) \<Longrightarrow> map username (users s') = map username (users s)"
  by (auto simp: patch_user_pro_def lookup_user_def Let_def map_update_same
        split: option.splits if_splits)

lemma inv_post_todos_users:
  "post_todos uuid clock s request = Some (s', resp) \<Longrightarrow> map username (users s') = map username (users s)"
  by (auto simp: post_todos_def lookup_user_def Let_def map_update_same
        split: option.splits if_splits)

lemma inv_delete_todo_users:
  "delete_todo s request = Some (s', resp) \<Longrightarrow> map username (users s') = map username (users s)"
  by (auto simp: delete_todo_def lookup_user_def map_update_same split: option.splits if_splits)

lemma usernames_finish:
  assumes "\<And>request s' resp. handler s request = Some (s', resp) \<Longrightarrow>
             username ` set (users s) \<subseteq> username ` set (users s')"
  shows "username ` set (users s) \<subseteq> username ` set (users (fst (finish s guards handler)))"
proof (cases guards)
  case (Next request)
  show ?thesis
  proof (cases "handler s request")
    case None
    with Next show ?thesis by (simp add: finish_def)
  next
    case (Some out)
    with assms [of request "fst out" "snd out"] Next show ?thesis
      by (simp add: finish_def)
  qed
qed (simp_all add: finish_def)

lemma usernames_handle:
  "username ` set (users s) \<subseteq> username ` set (users (fst (handle validate s ev)))"
proof -
  have 1: "\<And>uuid request s' resp. post_users uuid s request = Some (s', resp) \<Longrightarrow>
             username ` set (users s) \<subseteq> username ` set (users s')"
    by (auto simp: post_users_def Let_def split: if_splits)
  have 2: "\<And>request s' resp. get_user s request = Some (s', resp) \<Longrightarrow>
             username ` set (users s) \<subseteq> username ` set (users s')"
    by (auto simp: get_user_def split: option.splits)
  have 3: "\<And>request s' resp. patch_user_pro s request = Some (s', resp) \<Longrightarrow>
             username ` set (users s) \<subseteq> username ` set (users s')"
    using inv_patch_user_pro_users by (metis set_map subset_refl)
  have 4: "\<And>request s' resp. get_todos s request = Some (s', resp) \<Longrightarrow>
             username ` set (users s) \<subseteq> username ` set (users s')"
    by (auto simp: get_todos_def split: option.splits)
  have 5: "\<And>uuid clock request s' resp. post_todos uuid clock s request = Some (s', resp) \<Longrightarrow>
             username ` set (users s) \<subseteq> username ` set (users s')"
    using inv_post_todos_users by (metis set_map subset_refl)
  have 6: "\<And>request s' resp. put_todo s request = Some (s', resp) \<Longrightarrow>
             username ` set (users s) \<subseteq> username ` set (users s')"
    by (auto simp: put_todo_def Let_def split: option.splits)
  have 7: "\<And>request s' resp. patch_todo_done s request = Some (s', resp) \<Longrightarrow>
             username ` set (users s) \<subseteq> username ` set (users s')"
    by (auto simp: patch_todo_done_def Let_def split: option.splits)
  have 8: "\<And>request s' resp. delete_todo s request = Some (s', resp) \<Longrightarrow>
             username ` set (users s) \<subseteq> username ` set (users s')"
    using inv_delete_todo_users by (metis set_map subset_refl)
  show ?thesis
  proof (cases "ev_route ev")
    case POST_users
    then show ?thesis by (simp add: handle_def usernames_finish 1)
  next
    case GET_user
    then show ?thesis by (simp add: handle_def usernames_finish 2)
  next
    case PATCH_user_pro
    then show ?thesis by (simp add: handle_def usernames_finish 3)
  next
    case GET_todos
    then show ?thesis by (simp add: handle_def usernames_finish 4)
  next
    case POST_todos
    then show ?thesis by (simp add: handle_def usernames_finish 5)
  next
    case PUT_todo
    then show ?thesis by (simp add: handle_def usernames_finish 6)
  next
    case PATCH_todo_done
    then show ?thesis by (simp add: handle_def usernames_finish 7)
  next
    case DELETE_todo
    then show ?thesis by (simp add: handle_def usernames_finish 8)
  qed
qed

lemma usernames_run:
  "username ` set (users s) \<subseteq> username ` set (users (run validate s evs))"
proof (induction evs arbitrary: s)
  case Nil
  show ?case by simp
next
  case (Cons ev evs)
  from usernames_handle [of s validate ev] Cons.IH [of "fst (handle validate s ev)"]
  show ?case by auto
qed

text \<open>
  Claim C7, as stated: after any sequence of requests no two users have the same
  username. Two \<open>POST /users\<close> requests with body \<open>{"username": ["a"]}\<close> are both
  answered 201, since the duplicate check compares the two arrays by reference, and the
  store then holds two users whose username is \<open>["a"]\<close>.
\<close>

theorem usernames_unique_counterexample:
  "map username (users (run uuid_validate empty_store [sign_up_array, sign_up_array]))
     = [JArray [JString ''a''], JArray [JString ''a'']]
   \<and> \<not> distinct (map username (users (run uuid_validate empty_store [sign_up_array, sign_up_array])))"
  by (simp add: handle_post_users sign_up_array_def blank_def empty_store_def strict_eq_def)

text \<open>
  Claim C7, amended. Starting from the empty store, after any sequence of requests no
  two users have the same username where that username is a primitive value (a string,
  a number, a boolean, \<open>null\<close>, or absent); usernames that are arrays or objects are not
  covered.
\<close>

theorem usernames_unique:
  "distinct (filter primitive (map username (users (run validate empty_store evs))))"
  using inv_reachable [of validate evs] by (simp add: store_inv_def)

text \<open>
  Claim C10. \<open>POST /users\<close> does not validate its fields. On the empty store a request
  without a \<open>username\<close> field succeeds with 201 and creates a user whose username is
  the absent value; after that, and after any further requests, every \<open>POST /users\<close>
  without a \<open>username\<close> field is answered 400 "Username already exists".
\<close>

theorem post_users_absent_username:
  assumes "ev_route ev = POST_users" and "b_username (ev_request ev) = JUndefined"
    and "ev_route ev' = POST_users" and "b_username (ev_request ev') = JUndefined"
  shows "(\<exists>u. handle validate empty_store ev
               = (empty_store\<lparr>users := [u]\<rparr>, \<lparr>status = 201, body = JUser u []\<rparr>)
            \<and> username u = JUndefined)
       \<and> handle validate (run validate empty_store (ev # evs)) ev'
           = (run validate empty_store (ev # evs), error_response 400 ''Username already exists'')"
proof
  show "\<exists>u. handle validate empty_store ev
               = (empty_store\<lparr>users := [u]\<rparr>, \<lparr>status = 201, body = JUser u []\<rparr>)
            \<and> username u = JUndefined"
    using assms(2)
    by (simp add: handle_post_users [OF assms(1)] empty_store_def)
next
  let ?s1 = "fst (handle validate empty_store ev)"
  let ?s = "run validate empty_store (ev # evs)"
  have "JUndefined \<in> username ` set (users ?s1)"
    using assms(2)
    by (simp add: handle_post_users [OF assms(1)] empty_store_def)
  with usernames_run [of ?s1 validate evs] have "JUndefined \<in> username ` set (users ?s)"
    by auto
  then obtain u where "u \<in> set (users ?s)" and "username u = JUndefined"
    by (auto simp: image_iff)
  then have "\<exists>u \<in> set (users ?s). strict_eq (username u) (b_username (ev_request ev'))"
    using assms(4) by (auto intro!: bexI [of _ u])
  then show "handle validate ?s ev' = (?s, error_response 400 ''Username already exists'')"
    by (simp add: handle_post_users [OF assms(3)])
qed


subsection \<open>Updating and deleting a to-do\<close>




lemma indexOf_SomeD: "indexOf xs v = Some k \<Longrightarrow> k < length xs \<and> xs ! k = v"
  unfolding indexOf_def by (drule first_index_SomeD) simp




lemma objects_map: "\<forall>r \<in> set rs. h r \<noteq> None \<Longrightarrow> objects h rs = map (\<lambda>r. the (h r)) rs"
  by (induction rs) auto

lemma splice1_map: "splice1 k (map f xs) = map f (splice1 k xs)"
  by (simp add: splice1_def take_map drop_map)

lemma nth_subset_concat: "a < length xs \<Longrightarrow> set (f (xs ! a)) \<subseteq> set (concat (map f xs))"
  by (auto intro!: bexI [of _ "xs ! a"])

lemma first_index_map: "first_index (\<lambda>u. f u = x) xs = first_index (\<lambda>y. y = x) (map f xs)"
  by (induction xs) auto

lemma splice1_removes:
  assumes "distinct xs" and "k < length xs"
  shows "xs ! k \<notin> set (splice1 k xs)"
proof -
  from assms(2) have xs: "xs = take k xs @ xs ! k # drop (Suc k) xs"
    by (rule id_take_nth_drop)
  with assms(1) have "distinct (take k xs @ xs ! k # drop (Suc k) xs)" by simp
  then show ?thesis by (auto simp: splice1_def)
qed

text \<open>
  Claim C6. A \<open>DELETE /todos/:id\<close> that passes both guards removes exactly one entry
  of the owner's list, the attached to-do, whose id is the given one; the entries before
  and after it keep their order; the answer is 204 with an empty body; and the
  \<open>GET /todos\<close> that follows for the same user returns the former list without that
  entry.
\<close>

theorem delete_todo_removes_one:
  assumes "ev_route ev = DELETE_todo"
    and "s = run validate empty_store evs"
    and "checksExistsUserAccount s (incoming (ev_request ev)) = Next request1"
    and "checksTodoExists validate s request1 = Next request2"
    and "ev_route ev' = GET_todos"
    and "h_username (ev_request ev') = h_username (ev_request ev)"
  shows "\<exists>a r k t s'.
           ctx_user request2 = Some a \<and> a < length (users s) \<and> ctx_todo request2 = Some r
         \<and> k < length (todos (users s ! a)) \<and> todos (users s ! a) ! k = r
         \<and> heap s r = Some t \<and> todo_id t = p_id (ev_request ev)
         \<and> objects (heap s) (todos (users s ! a)) ! k = t
         \<and> handle validate s ev = (s', \<lparr>status = 204, body = JEmpty\<rparr>)
         \<and> s' = s\<lparr>users := (users s)[a := (users s ! a)\<lparr>todos := splice1 k (todos (users s ! a))\<rparr>]\<rparr>
         \<and> todos (users s' ! a) = take k (todos (users s ! a)) @ drop (Suc k) (todos (users s ! a))
         \<and> length (todos (users s' ! a)) + 1 = length (todos (users s ! a))
         \<and> r \<notin> set (todos (users s' ! a))
         \<and> handle validate s' ev'
             = (s', \<lparr>status = 200,
                     body = JTodos (splice1 k (objects (heap s) (todos (users s ! a))))\<rparr>)"
proof -
  let ?req = "incoming (ev_request ev)"
  have si: "store_inv s" unfolding assms(2) by (rule inv_reachable)
  from checksExistsUserAccount_Next [OF assms(3)] obtain a0 where
    a0: "first_index (\<lambda>u. username u = header (h_username ?req)) (users s) = Some a0"
    and eq1: "request1 = ?req\<lparr>ctx_user := Some a0\<rparr>"
    by blast
  from checksTodoExists_Next [OF assms(4)] obtain a r where
    a: "first_index (\<lambda>u. username u = header (h_username request1)) (users s) = Some a"
    and r: "r \<in> set (todos (users s ! a))"
    and hid: "has_id (heap s) (p_id request1) r"
    and eq: "request2 = request1\<lparr>ctx_user := Some a, ctx_todo := Some r\<rparr>"
    by blast
  from first_index_SomeD [OF a] have al: "a < length (users s)" by simp
  let ?ts = "todos (users s ! a)"
  from first_index_mem [OF r] obtain k where k: "indexOf ?ts r = Some k"
    by (auto simp: indexOf_def)
  from indexOf_SomeD [OF k] have kl: "k < length ?ts" and kr: "?ts ! k = r" by simp_all
  from hid obtain t where t: "heap s r = Some t" and tid: "todo_id t = p_id (ev_request ev)"
    by (auto simp: has_id_def eq1 split: option.splits)
  define s' where "s' = s\<lparr>users := (users s)[a := (users s ! a)\<lparr>todos := splice1 k ?ts\<rparr>]\<rparr>"
  have sub: "set ?ts \<subseteq> set (all_refs s)"
    unfolding all_refs_def using al by (rule nth_subset_concat)
  with si have dom: "\<forall>r \<in> set ?ts. heap s r \<noteq> None"
    by (auto simp: store_inv_def)
  from si have "distinct (all_refs s)" by (simp add: store_inv_def)
  then have dts: "distinct ?ts"
    using concat_map_nth [OF al, of todos] by (simp add: all_refs_def)
  have obj: "objects (heap s) ?ts = map (\<lambda>r. the (heap s r)) ?ts"
    using dom by (rule objects_map)
  have objk: "objects (heap s) ?ts ! k = t"
    using kl kr t by (simp add: obj)
  have dom': "\<forall>r \<in> set (splice1 k ?ts). heap s r \<noteq> None"
    using dom set_splice1 [of k ?ts] by blast
  have obj': "objects (heap s) (splice1 k ?ts) = splice1 k (objects (heap s) ?ts)"
    by (simp add: objects_map [OF dom'] obj splice1_map)
  have del: "delete_todo s request2 = Some (s', \<lparr>status = 204, body = JEmpty\<rparr>)"
    using al k by (simp add: delete_todo_def lookup_user_def eq s'_def)
  have h: "handle validate s ev = (s', \<lparr>status = 204, body = JEmpty\<rparr>)"
    using assms(1) by (simp add: handle_def assms(3) and_then_def assms(4) finish_def del)
  have us': "users s' ! a = (users s ! a)\<lparr>todos := splice1 k ?ts\<rparr>"
    using al by (simp add: s'_def)
  have gone: "r \<notin> set (todos (users s' ! a))"
    using splice1_removes [OF dts kl] kr by (simp add: us')
  have len: "length (todos (users s' ! a)) + 1 = length ?ts"
    using kl by (simp add: us' splice1_def)
  have "map username (users s') = map username (users s)"
    by (simp add: s'_def map_update_same)
  then have "first_index (\<lambda>u. username u = header (h_username (incoming (ev_request ev')))) (users s') = Some a"
    using a by (simp add: first_index_map [of username] eq1 assms(6))
  then have g: "checksExistsUserAccount s' (incoming (ev_request ev'))
              = Next ((incoming (ev_request ev'))\<lparr>ctx_user := Some a\<rparr>)"
    by (rule checksExistsUserAccount_found)
  have al': "a < length (users s')" using al by (simp add: s'_def)
  have hs': "heap s' = heap s" by (simp add: s'_def)
  have get: "handle validate s' ev'
      = (s', \<lparr>status = 200, body = JTodos (splice1 k (objects (heap s) ?ts))\<rparr>)"
    using assms(5)
    by (simp add: handle_def g finish_def get_todos_def lookup_user_ctx [OF al'] us' hs' obj')
  from al kl kr t tid objk h us' len gone get eq show ?thesis
    by (intro exI [of _ a] exI [of _ r] exI [of _ k] exI [of _ t] exI [of _ s'])
       (simp add: s'_def splice1_def)
qed


subsection \<open>The small run\<close>

lemma ana_store_run: "run validate empty_store [sign_up, add_task] = ana_store"
  by (simp add: handle_def finish_def and_then_def post_users_def post_todos_def
      checksExistsUserAccount_def checksCreateTodosUserAvailability_def lookup_user_def
      incoming_def sign_up_def add_task_def blank_def empty_store_def ana_store_def ana_def
      task_def user_json_def Let_def)

lemma validate_task_id: "uuid_validate task_id 4"
  by code_simp

lemma validate_v1_id: "uuid_validate v1_id 4"
  by code_simp

lemma validate_not_a_uuid: "\<not> uuid_validate ''not-a-uuid'' 4"
  by code_simp

lemma ana_found:
  "first_index (\<lambda>u. username u = header (h_username (ask (Some ''ana'') i))) (users ana_store) = Some 0"
  by (simp add: ask_def blank_def ana_store_def ana_def)

lemma ana_store_fields:
  "users ana_store ! 0 = ana" "todos ana = [0]" "heap ana_store 0 = Some task"
  "todo_id task = task_id" "users ana_store = [ana]" "username ana = JString ''ana''"
  "pro ana = False" "user_id ana = ana_id"
  by (simp_all add: ana_store_def ana_def task_def)

lemma ask_fields:
  "h_username (ask un i) = un" "p_id (ask un i) = i"
  by (simp_all add: ask_def blank_def)

lemma ids_differ: "task_id \<noteq> v1_id"
  by (simp add: task_id_def v1_id_def)

theorem checksTodoExists_priority_witness:
  "(\<not> uuid_validate (p_id (ask (Some ''ana'') ''not-a-uuid'')) 4
      \<and> checksTodoExists uuid_validate ana_store (ask (Some ''ana'') ''not-a-uuid'')
          = Respond (error_response 400 ''Id is not uuid''))
   \<and> (uuid_validate (p_id (ask (Some ''bob'') task_id)) 4
      \<and> \<not> (\<exists>u \<in> set (users ana_store). username u = header (h_username (ask (Some ''bob'') task_id)))
      \<and> checksTodoExists uuid_validate ana_store (ask (Some ''bob'') task_id)
          = Respond (error_response 404 ''User not found''))
   \<and> (uuid_validate (p_id (ask (Some ''ana'') v1_id)) 4
      \<and> first_index (\<lambda>u. username u = header (h_username (ask (Some ''ana'') v1_id))) (users ana_store) = Some 0
      \<and> \<not> (\<exists>r \<in> set (todos (users ana_store ! 0)). has_id (heap ana_store) (p_id (ask (Some ''ana'') v1_id)) r)
      \<and> checksTodoExists uuid_validate ana_store (ask (Some ''ana'') v1_id)
          = Respond (error_response 404 ''Todo not found''))
   \<and> (uuid_validate (p_id (ask (Some ''ana'') task_id)) 4
      \<and> first_index (\<lambda>u. username u = header (h_username (ask (Some ''ana'') task_id))) (users ana_store) = Some 0
      \<and> (\<exists>r \<in> set (todos (users ana_store ! 0)). has_id (heap ana_store) (p_id (ask (Some ''ana'') task_id)) r)
      \<and> (\<exists>r \<in> set (todos (users ana_store ! 0)). has_id (heap ana_store) (p_id (ask (Some ''ana'') task_id)) r
           \<and> checksTodoExists uuid_validate ana_store (ask (Some ''ana'') task_id)
               = Next ((ask (Some ''ana'') task_id)\<lparr>ctx_user := Some 0, ctx_todo := Some r\<rparr>)))"
proof -
  have a1: "\<not> uuid_validate (p_id (ask (Some ''ana'') ''not-a-uuid'')) 4"
    by (simp add: ask_fields validate_not_a_uuid)
  have b1: "uuid_validate (p_id (ask (Some ''bob'') task_id)) 4"
    by (simp add: ask_fields validate_task_id)
  have b2: "\<forall>u \<in> set (users ana_store). username u \<noteq> header (h_username (ask (Some ''bob'') task_id))"
    by (simp add: ask_fields ana_store_fields)
  have c1: "uuid_validate (p_id (ask (Some ''ana'') v1_id)) 4"
    by (simp add: ask_fields validate_v1_id)
  have c2: "first_index (\<lambda>u. username u = header (h_username (ask (Some ''ana'') v1_id))) (users ana_store) = Some 0"
    by (rule ana_found)
  have c3: "\<forall>r \<in> set (todos (users ana_store ! 0)). \<not> has_id (heap ana_store) (p_id (ask (Some ''ana'') v1_id)) r"
    using ids_differ by (simp add: ask_fields ana_store_fields has_id_def)
  have d1: "uuid_validate (p_id (ask (Some ''ana'') task_id)) 4"
    by (simp add: ask_fields validate_task_id)
  have d2: "first_index (\<lambda>u. username u = header (h_username (ask (Some ''ana'') task_id))) (users ana_store) = Some 0"
    by (rule ana_found)
  have d3: "\<exists>r \<in> set (todos (users ana_store ! 0)). has_id (heap ana_store) (p_id (ask (Some ''ana'') task_id)) r"
    by (simp add: ask_fields ana_store_fields has_id_def)
  note A = checksTodoExists_priority [of uuid_validate "ask (Some ''ana'') ''not-a-uuid''" ana_store 0]
  note B = checksTodoExists_priority [of uuid_validate "ask (Some ''bob'') task_id" ana_store 0]
  note C = checksTodoExists_priority [of uuid_validate "ask (Some ''ana'') v1_id" ana_store 0]
  note D = checksTodoExists_priority [of uuid_validate "ask (Some ''ana'') task_id" ana_store 0]
  from A a1 have a: "checksTodoExists uuid_validate ana_store (ask (Some ''ana'') ''not-a-uuid'')
          = Respond (error_response 400 ''Id is not uuid'')" by blast
  from B b1 b2 have b: "checksTodoExists uuid_validate ana_store (ask (Some ''bob'') task_id)
          = Respond (error_response 404 ''User not found'')" by blast
  from C c1 c2 c3 have c: "checksTodoExists uuid_validate ana_store (ask (Some ''ana'') v1_id)
          = Respond (error_response 404 ''Todo not found'')" by blast
  from D d1 d2 d3 have d: "\<exists>r \<in> set (todos (users ana_store ! 0)). has_id (heap ana_store) (p_id (ask (Some ''ana'') task_id)) r
           \<and> checksTodoExists uuid_validate ana_store (ask (Some ''ana'') task_id)
               = Next ((ask (Some ''ana'') task_id)\<lparr>ctx_user := Some 0, ctx_todo := Some r\<rparr>)" by blast
  from a1 a b1 b2 b c1 c2 c3 c d1 d2 d3 d show ?thesis by blast
qed


lemma example_routes:
  "ev_route sign_up = POST_users" "ev_route anonymous = POST_users"
  "ev_route add_task = POST_todos" "ev_route (on_task rt i) = rt"
  "ev_route upgrade = PATCH_user_pro"
  "ev_request (on_task rt i) = ask (Some ''ana'') i"
  by (simp_all add: sign_up_def anonymous_def add_task_def on_task_def upgrade_def)

lemma ana_user_found:
  "h_username x = Some ''ana'' \<Longrightarrow>
     checksExistsUserAccount ana_store x = Next (x\<lparr>ctx_user := Some 0\<rparr>)"
  by (simp add: checksExistsUserAccount_def ana_store_fields)

lemma ana_task_found:
  "h_username x = Some ''ana'' \<Longrightarrow> p_id x = task_id \<Longrightarrow>
     checksTodoExists uuid_validate ana_store x = Next (x\<lparr>ctx_user := Some 0, ctx_todo := Some 0\<rparr>)"
  by (simp add: checksTodoExists_def validate_task_id ana_store_fields has_id_def)

theorem post_users_duplicate_witness:
  "(ev_route sign_up = POST_users
      \<and> primitive (b_username (ev_request sign_up))
      \<and> (\<exists>u \<in> set (users ana_store). username u = b_username (ev_request sign_up))
      \<and> handle uuid_validate ana_store sign_up
          = (ana_store, error_response 400 ''Username already exists''))
   \<and> (\<not> (\<exists>u \<in> set (users empty_store). username u = b_username (ev_request sign_up))
      \<and> (\<exists>u. handle uuid_validate empty_store sign_up
                 = (empty_store\<lparr>users := users empty_store @ [u]\<rparr>,
                    \<lparr>status = 201, body = JUser u []\<rparr>)
             \<and> pro u = False \<and> todos u = []))
   \<and> (ev_route sign_up_array = POST_users
      \<and> \<not> primitive (b_username (ev_request sign_up_array))
      \<and> (\<exists>u. handle uuid_validate (fst (handle uuid_validate empty_store sign_up_array)) sign_up_array
                 = ((fst (handle uuid_validate empty_store sign_up_array))
                       \<lparr>users := users (fst (handle uuid_validate empty_store sign_up_array)) @ [u]\<rparr>,
                    \<lparr>status = 201, body = JUser u []\<rparr>)
             \<and> username u = b_username (ev_request sign_up_array)))"
proof -
  have r: "ev_route sign_up = POST_users" by (rule example_routes)
  have r': "ev_route sign_up_array = POST_users" by (simp add: sign_up_array_def)
  have p1: "primitive (b_username (ev_request sign_up))"
    by (simp add: sign_up_def blank_def)
  have h1: "\<exists>u \<in> set (users ana_store). username u = b_username (ev_request sign_up)"
    by (simp add: ana_store_fields sign_up_def blank_def)
  have h2: "\<forall>u \<in> set (users empty_store). username u \<noteq> b_username (ev_request sign_up)"
    by (simp add: empty_store_def)
  have p3: "\<not> primitive (b_username (ev_request sign_up_array))"
    by (simp add: sign_up_array_def blank_def)
  note A = post_users_duplicate [OF r, where s = ana_store and validate = uuid_validate]
  note B = post_users_duplicate [OF r, where s = empty_store and validate = uuid_validate]
  note C = post_users_duplicate [OF r', where validate = uuid_validate
      and s = "fst (handle uuid_validate empty_store sign_up_array)"]
  from A p1 h1 have a: "handle uuid_validate ana_store sign_up
          = (ana_store, error_response 400 ''Username already exists'')" by blast
  from B h2 have b: "\<exists>u. handle uuid_validate empty_store sign_up
                 = (empty_store\<lparr>users := users empty_store @ [u]\<rparr>,
                    \<lparr>status = 201, body = JUser u []\<rparr>)
             \<and> pro u = False \<and> todos u = []" by blast
  from C p3 have c: "\<exists>u. handle uuid_validate (fst (handle uuid_validate empty_store sign_up_array)) sign_up_array
                 = ((fst (handle uuid_validate empty_store sign_up_array))
                       \<lparr>users := users (fst (handle uuid_validate empty_store sign_up_array)) @ [u]\<rparr>,
                    \<lparr>status = 201, body = JUser u []\<rparr>)
             \<and> username u = b_username (ev_request sign_up_array)" by blast
  from r p1 h1 a h2 b r' p3 c show ?thesis by blast
qed

theorem patch_user_pro_once_witness:
  "(ev_route upgrade = PATCH_user_pro
      \<and> first_index (\<lambda>u. user_id u = p_id (ev_request upgrade)) (users ana_pro) = Some 0
      \<and> pro (users ana_pro ! 0)
      \<and> handle uuid_validate ana_pro upgrade
          = (ana_pro, error_response 400 ''Pro plan is already activated.''))
   \<and> (first_index (\<lambda>u. user_id u = p_id (ev_request upgrade)) (users ana_store) = Some 0
      \<and> \<not> pro (users ana_store ! 0)
      \<and> handle uuid_validate ana_store upgrade
          = (ana_store\<lparr>users := (users ana_store)[0 := (users ana_store ! 0)\<lparr>pro := True\<rparr>]\<rparr>,
             \<lparr>status = 200,
              body = JUser ((users ana_store ! 0)\<lparr>pro := True\<rparr>)
                       (objects (heap ana_store) (todos (users ana_store ! 0)))\<rparr>))"
proof -
  have r: "ev_route upgrade = PATCH_user_pro" by (rule example_routes)
  have f1: "first_index (\<lambda>u. user_id u = p_id (ev_request upgrade)) (users ana_pro) = Some 0"
    by (simp add: upgrade_def ask_fields ana_pro_def ana_def)
  have p1: "pro (users ana_pro ! 0)" by (simp add: ana_pro_def)
  have f2: "first_index (\<lambda>u. user_id u = p_id (ev_request upgrade)) (users ana_store) = Some 0"
    by (simp add: upgrade_def ask_fields ana_store_fields)
  have p2: "\<not> pro (users ana_store ! 0)" by (simp add: ana_store_fields)
  note A = patch_user_pro_once [OF r f1, where validate = uuid_validate]
  note B = patch_user_pro_once [OF r f2, where validate = uuid_validate]
  from A p1 have a: "handle uuid_validate ana_pro upgrade
          = (ana_pro, error_response 400 ''Pro plan is already activated.'')" by blast
  from B p2 have b: "handle uuid_validate ana_store upgrade
          = (ana_store\<lparr>users := (users ana_store)[0 := (users ana_store ! 0)\<lparr>pro := True\<rparr>]\<rparr>,
             \<lparr>status = 200,
              body = JUser ((users ana_store ! 0)\<lparr>pro := True\<rparr>)
                       (objects (heap ana_store) (todos (users ana_store ! 0)))\<rparr>)" by blast
  from r f1 p1 a f2 p2 b show ?thesis by blast
qed


theorem delete_todo_not_found_unreachable_witness:
  "ev_route (on_task DELETE_todo task_id) = DELETE_todo
   \<and> checksExistsUserAccount ana_store (incoming (ev_request (on_task DELETE_todo task_id)))
       = Next ((incoming (ask (Some ''ana'') task_id))\<lparr>ctx_user := Some 0\<rparr>)
   \<and> checksTodoExists uuid_validate ana_store ((incoming (ask (Some ''ana'') task_id))\<lparr>ctx_user := Some 0\<rparr>)
       = Next ((incoming (ask (Some ''ana'') task_id))\<lparr>ctx_user := Some 0, ctx_todo := Some 0\<rparr>)
   \<and> status (snd (handle uuid_validate ana_store (on_task DELETE_todo task_id))) = 204"
proof -
  have r: "ev_route (on_task DELETE_todo task_id) = DELETE_todo" by (rule example_routes)
  have g1: "checksExistsUserAccount ana_store (incoming (ev_request (on_task DELETE_todo task_id)))
       = Next ((incoming (ask (Some ''ana'') task_id))\<lparr>ctx_user := Some 0\<rparr>)"
    by (simp add: example_routes ana_user_found ask_fields)
  have g2: "checksTodoExists uuid_validate ana_store ((incoming (ask (Some ''ana'') task_id))\<lparr>ctx_user := Some 0\<rparr>)
       = Next ((incoming (ask (Some ''ana'') task_id))\<lparr>ctx_user := Some 0, ctx_todo := Some 0\<rparr>)"
    by (simp add: ana_task_found ask_fields)
  from delete_todo_not_found_unreachable [OF r g1 g2]
  have "status (snd (handle uuid_validate ana_store (on_task DELETE_todo task_id))) = 204"
    by blast
  with r g1 g2 show ?thesis by blast
qed

theorem usernames_unique_witness:
  "distinct (filter primitive (map username
      (users (run uuid_validate empty_store
                [sign_up, add_task, sign_up_array, sign_up, sign_up_array, anonymous]))))"
  by (rule usernames_unique)

theorem post_users_absent_username_witness:
  "ev_route anonymous = POST_users \<and> b_username (ev_request anonymous) = JUndefined
   \<and> (\<exists>u. handle uuid_validate empty_store anonymous
             = (empty_store\<lparr>users := [u]\<rparr>, \<lparr>status = 201, body = JUser u []\<rparr>)
          \<and> username u = JUndefined)
   \<and> handle uuid_validate (run uuid_validate empty_store [anonymous, sign_up, add_task]) anonymous
       = (run uuid_validate empty_store [anonymous, sign_up, add_task],
          error_response 400 ''Username already exists'')"
proof -
  have r: "ev_route anonymous = POST_users" by (rule example_routes)
  have n: "b_username (ev_request anonymous) = JUndefined" by (simp add: anonymous_def blank_def)
  from post_users_absent_username [OF r n r n, of uuid_validate "[sign_up, add_task]"] r n
  show ?thesis by blast
qed


theorem delete_todo_removes_one_witness:
  "ev_route (on_task DELETE_todo task_id) = DELETE_todo
   \<and> checksExistsUserAccount (run uuid_validate empty_store [sign_up, add_task])
         (incoming (ev_request (on_task DELETE_todo task_id)))
       = Next ((incoming (ask (Some ''ana'') task_id))\<lparr>ctx_user := Some 0\<rparr>)
   \<and> checksTodoExists uuid_validate (run uuid_validate empty_store [sign_up, add_task])
         ((incoming (ask (Some ''ana'') task_id))\<lparr>ctx_user := Some 0\<rparr>)
       = Next ((incoming (ask (Some ''ana'') task_id))\<lparr>ctx_user := Some 0, ctx_todo := Some 0\<rparr>)
   \<and> ev_route (on_task GET_todos []) = GET_todos
   \<and> h_username (ev_request (on_task GET_todos [])) = h_username (ev_request (on_task DELETE_todo task_id))
   \<and> (\<exists>s'. handle uuid_validate (run uuid_validate empty_store [sign_up, add_task])
               (on_task DELETE_todo task_id)
             = (s', \<lparr>status = 204, body = JEmpty\<rparr>)
          \<and> todos (users s' ! 0) = []
          \<and> handle uuid_validate s' (on_task GET_todos []) = (s', \<lparr>status = 200, body = JTodos []\<rparr>))"
proof -
  define s where "s = run uuid_validate empty_store [sign_up, add_task]"
  have reach: "s = run uuid_validate empty_store [sign_up, add_task]" by (rule s_def)
  have s: "s = ana_store" unfolding s_def by (rule ana_store_run)
  have r: "ev_route (on_task DELETE_todo task_id) = DELETE_todo" by (rule example_routes)
  have g1: "checksExistsUserAccount s (incoming (ev_request (on_task DELETE_todo task_id)))
       = Next ((incoming (ask (Some ''ana'') task_id))\<lparr>ctx_user := Some 0\<rparr>)"
    unfolding s by (simp add: example_routes ana_user_found ask_fields)
  have g2: "checksTodoExists uuid_validate s ((incoming (ask (Some ''ana'') task_id))\<lparr>ctx_user := Some 0\<rparr>)
       = Next ((incoming (ask (Some ''ana'') task_id))\<lparr>ctx_user := Some 0, ctx_todo := Some 0\<rparr>)"
    unfolding s by (simp add: ana_task_found ask_fields)
  have r': "ev_route (on_task GET_todos []) = GET_todos" by (rule example_routes)
  have u: "h_username (ev_request (on_task GET_todos [])) = h_username (ev_request (on_task DELETE_todo task_id))"
    by (simp add: example_routes ask_fields)
  have ts: "todos (users s ! 0) = [0]" "heap s 0 = Some task"
    unfolding s by (simp_all add: ana_store_fields)
  from delete_todo_removes_one [OF r reach g1 g2 r' u]
  obtain a k s' where "ctx_user ((incoming (ask (Some ''ana'') task_id))\<lparr>ctx_user := Some 0, ctx_todo := Some 0\<rparr>) = Some a"
    and k: "k < length (todos (users s ! a))"
    and h: "handle uuid_validate s (on_task DELETE_todo task_id) = (s', \<lparr>status = 204, body = JEmpty\<rparr>)"
    and t: "todos (users s' ! a) = take k (todos (users s ! a)) @ drop (Suc k) (todos (users s ! a))"
    and get: "handle uuid_validate s' (on_task GET_todos [])
             = (s', \<lparr>status = 200, body = JTodos (splice1 k (objects (heap s) (todos (users s ! a))))\<rparr>)"
    by blast
  then have a0: "a = 0" by simp
  from k have k0: "k = 0" by (simp add: a0 ts)
  from t have t': "todos (users s' ! 0) = []" by (simp add: a0 k0 ts)
  from get have get': "handle uuid_validate s' (on_task GET_todos []) = (s', \<lparr>status = 200, body = JTodos []\<rparr>)"
    by (simp add: a0 k0 ts splice1_def)
  from r g1 g2 r' u h t' get' show ?thesis unfolding s_def [symmetric] by blast
qed


subsection \<open>Which ids the to-do guard refuses\<close>

lemma one_of_hexes:
  assumes "one_of cs s = Some r" and "\<forall>c \<in> set cs. is_hex c" and "hexes n r = Some r'"
  shows "hexes (Suc n) s = Some r'"
  using assms by (cases s) (auto split: if_splits)

lemma uuid_pattern_shape:
  assumes "uuid_pattern vs s" and "\<forall>c \<in> set vs. is_hex c"
  shows "uuid_shape s"
proof -
  from assms(1) obtain s1 s2 s3 s4 s5 s6 s7 s8 s9 s10 where
    1: "hexes 8 s = Some s1" "one_of ''-'' s1 = Some s2" "hexes 4 s2 = Some s3"
       "one_of ''-'' s3 = Some s4"
    and 2: "one_of vs s4 = Some s5" "hexes 3 s5 = Some s6"
    and 3: "one_of ''-'' s6 = Some s7"
    and 4: "one_of ''89abAB'' s7 = Some s8" "hexes 3 s8 = Some s9"
    and 5: "one_of ''-'' s9 = Some s10" "hexes 12 s10 = Some []"
    unfolding uuid_pattern_def by (auto simp: bind_eq_Some_conv)
  from 2 assms(2) have a: "hexes 4 s4 = Some s6"
    using one_of_hexes [of vs s4 s5 3 s6] by (simp add: eval_nat_numeral)
  have "\<forall>c \<in> set ''89abAB''. is_hex c" by (simp add: is_hex_def)
  with 4 have b: "hexes 4 s7 = Some s9"
    using one_of_hexes [of "''89abAB''" s7 s8 3 s9] by (simp add: eval_nat_numeral)
  from 1 a 3 b 5 show ?thesis
    unfolding uuid_shape_def by simp
qed

lemma uuid_validate_shape: "uuid_validate s v \<Longrightarrow> uuid_shape s"
proof -
  assume "uuid_validate s v"
  then consider "uuid_pattern ''12345'' s" | "s = ''00000000-0000-0000-0000-000000000000''"
    by (auto simp: uuid_validate_def)
  then show ?thesis
  proof cases
    case 1
    then show ?thesis by (rule uuid_pattern_shape) (simp add: is_hex_def)
  next
    case 2
    show ?thesis unfolding 2 by code_simp
  qed
qed

lemma finish_400:
  assumes "guards = Respond (error_response 400 msg)"
  shows "finish s guards handler = (s, error_response 400 msg)"
  using assms by (simp add: finish_def)

lemma checksTodoExists_400:
  "\<not> validate (p_id request) 4 \<Longrightarrow>
     checksTodoExists validate s request = Respond (error_response 400 ''Id is not uuid'')"
  by (simp add: checksTodoExists_def)

lemma finish_status:
  assumes "snd (finish s guards handler) = error_response 400 msg"
    and "\<And>request out. handler s request = Some out \<Longrightarrow> status (snd out) \<noteq> 400"
  shows "guards = Respond (error_response 400 msg)"
proof (cases guards)
  case (Respond resp)
  with assms(1) show ?thesis by (simp add: finish_def)
next
  case (Next request)
  show ?thesis
  proof (cases "handler s request")
    case None
    with Next assms(1) show ?thesis
      by (simp add: finish_def internal_error_def error_response_def)
  next
    case (Some out)
    with Next assms(1) have "snd out = error_response 400 msg" by (simp add: finish_def)
    then have "status (snd out) = 400" by (simp add: error_response_def)
    with assms(2) [OF Some] show ?thesis by simp
  qed
next
  case Throw
  with assms(1) show ?thesis by (simp add: finish_def internal_error_def error_response_def)
qed

lemma handlers_not_400:
  "put_todo s request = Some out \<Longrightarrow> status (snd out) \<noteq> 400"
  "patch_todo_done s request = Some out \<Longrightarrow> status (snd out) \<noteq> 400"
  "delete_todo s request = Some out \<Longrightarrow> status (snd out) \<noteq> 400"
  by (auto simp: put_todo_def patch_todo_done_def delete_todo_def error_response_def Let_def
      split: option.splits)

lemma checksTodoExists_400D:
  "checksTodoExists validate s request = Respond (error_response 400 msg) \<Longrightarrow>
     \<not> validate (p_id request) 4"
  by (auto simp: checksTodoExists_def error_response_def Let_def split: option.splits if_splits)

lemma and_then_400D:
  "and_then (checksExistsUserAccount s request) (checksTodoExists validate s)
      = Respond (error_response 400 msg) \<Longrightarrow> \<not> validate (p_id request) 4"
proof -
  assume h: "and_then (checksExistsUserAccount s request) (checksTodoExists validate s)
      = Respond (error_response 400 msg)"
  show ?thesis
  proof (cases "checksExistsUserAccount s request")
    case (Respond resp)
    with h show ?thesis
      by (auto simp: and_then_def checksExistsUserAccount_def error_response_def split: option.splits)
  next
    case (Next request1)
    with h have "checksTodoExists validate s request1 = Respond (error_response 400 msg)"
      by (simp add: and_then_def)
    then have "\<not> validate (p_id request1) 4" by (rule checksTodoExists_400D)
    moreover from checksExistsUserAccount_Next [OF Next] have "p_id request1 = p_id request"
      by auto
    ultimately show ?thesis by simp
  next
    case Throw
    with h show ?thesis by (simp add: and_then_def)
  qed
qed

text \<open>
  Claim C1, as stated: on the routes guarded by \<open>checksTodoExists\<close> an id that is not a
  version-4 UUID is answered 400 "Id is not uuid", whether or not the user and the to-do
  exist. Two requests show otherwise. On \<open>DELETE /todos/:id\<close> the guard
  \<open>checksExistsUserAccount\<close> runs first, so with an unknown username the answer is 404
  "User not found!" even for an id that is no UUID at all. And the guard calls
  \<open>validate(id, 4)\<close>, where the package's \<open>validate\<close> takes the id only: a version-1
  UUID passes the format check and the guard goes on to look for the to-do.
\<close>

theorem todo_guard_400_counterexample:
  "\<not> is_uuid_v4 ''not-a-uuid''
   \<and> handle uuid_validate empty_store (on_task DELETE_todo ''not-a-uuid'')
       = (empty_store, error_response 404 ''User not found!'')
   \<and> \<not> is_uuid_v4 v1_id
   \<and> handle uuid_validate ana_store (on_task PUT_todo v1_id)
       = (ana_store, error_response 404 ''Todo not found'')"
proof (intro conjI)
  show "\<not> is_uuid_v4 ''not-a-uuid''" by code_simp
  show "\<not> is_uuid_v4 v1_id" by code_simp
  show "handle uuid_validate empty_store (on_task DELETE_todo ''not-a-uuid'')
       = (empty_store, error_response 404 ''User not found!'')"
    by (simp add: handle_def example_routes checksExistsUserAccount_def empty_store_def
        and_then_def finish_def)
  have "checksTodoExists uuid_validate ana_store (incoming (ask (Some ''ana'') v1_id))
       = Respond (error_response 404 ''Todo not found'')"
    using ids_differ
    by (simp add: checksTodoExists_def ask_fields validate_v1_id ana_store_fields has_id_def)
  then show "handle uuid_validate ana_store (on_task PUT_todo v1_id)
       = (ana_store, error_response 404 ''Todo not found'')"
    by (simp add: handle_def example_routes finish_def)
qed

text \<open>
  Claim C1, amended. On \<open>PUT /todos/:id\<close> and \<open>PATCH /todos/:id/done\<close>, and on
  \<open>DELETE /todos/:id\<close> when some user has the header's username, an id that does not
  have the shape of a UUID is answered 400 "Id is not uuid", whatever else the store
  holds. A \<open>DELETE /todos/:id\<close> whose username no user has is answered 404
  "User not found!", whatever the id. On the three routes, an id answered 400
  "Id is not uuid" is not a version-4 UUID.
\<close>

theorem todo_guard_rejects_malformed_id:
  "(\<not> uuid_shape (p_id (ev_request ev))
      \<and> (ev_route ev = PUT_todo \<or> ev_route ev = PATCH_todo_done) \<longrightarrow>
        handle uuid_validate s ev = (s, error_response 400 ''Id is not uuid''))
   \<and> (\<not> uuid_shape (p_id (ev_request ev)) \<and> ev_route ev = DELETE_todo
      \<and> (\<exists>u \<in> set (users s). username u = header (h_username (ev_request ev))) \<longrightarrow>
        handle uuid_validate s ev = (s, error_response 400 ''Id is not uuid''))
   \<and> (ev_route ev = DELETE_todo
      \<and> (\<forall>u \<in> set (users s). username u \<noteq> header (h_username (ev_request ev))) \<longrightarrow>
        handle uuid_validate s ev = (s, error_response 404 ''User not found!''))
   \<and> ((ev_route ev = PUT_todo \<or> ev_route ev = PATCH_todo_done \<or> ev_route ev = DELETE_todo)
      \<and> snd (handle uuid_validate s ev) = error_response 400 ''Id is not uuid'' \<longrightarrow>
        \<not> is_uuid_v4 (p_id (ev_request ev)))"
proof (intro conjI impI)
  let ?req = "incoming (ev_request ev)"
  {
    assume "\<not> uuid_shape (p_id (ev_request ev))"
    then have "\<not> uuid_validate (p_id ?req) 4"
      using uuid_validate_shape [of "p_id (ev_request ev)" 4] by auto
    then have "checksTodoExists uuid_validate s' r = Respond (error_response 400 ''Id is not uuid'')"
      if "p_id r = p_id ?req" for r s' using that by (simp add: checksTodoExists_400)
  }
  note rej = this
  {
    assume h: "\<not> uuid_shape (p_id (ev_request ev))
      \<and> (ev_route ev = PUT_todo \<or> ev_route ev = PATCH_todo_done)"
    then have "checksTodoExists uuid_validate s ?req = Respond (error_response 400 ''Id is not uuid'')"
      by (intro rej) simp_all
    with h show "handle uuid_validate s ev = (s, error_response 400 ''Id is not uuid'')"
      by (auto simp: handle_def finish_def)
  }
  {
    assume h: "\<not> uuid_shape (p_id (ev_request ev)) \<and> ev_route ev = DELETE_todo
      \<and> (\<exists>u \<in> set (users s). username u = header (h_username (ev_request ev)))"
    then have "first_index (\<lambda>u. username u = header (h_username ?req)) (users s) \<noteq> None"
      by (auto simp: first_index_None_iff)
    then obtain a where "first_index (\<lambda>u. username u = header (h_username ?req)) (users s) = Some a"
      by auto
    then have g1: "checksExistsUserAccount s ?req = Next (?req\<lparr>ctx_user := Some a\<rparr>)"
      by (rule checksExistsUserAccount_found)
    from h have "checksTodoExists uuid_validate s (?req\<lparr>ctx_user := Some a\<rparr>)
        = Respond (error_response 400 ''Id is not uuid'')"
      by (intro rej) simp_all
    with h g1 show "handle uuid_validate s ev = (s, error_response 400 ''Id is not uuid'')"
      by (simp add: handle_def and_then_def finish_def)
  }
  {
    assume h: "ev_route ev = DELETE_todo
      \<and> (\<forall>u \<in> set (users s). username u \<noteq> header (h_username (ev_request ev)))"
    then have "first_index (\<lambda>u. username u = header (h_username ?req)) (users s) = None"
      by (simp add: first_index_None_iff)
    with h show "handle uuid_validate s ev = (s, error_response 404 ''User not found!'')"
      by (simp add: handle_def checksExistsUserAccount_def and_then_def finish_def)
  }
  {
    assume h: "(ev_route ev = PUT_todo \<or> ev_route ev = PATCH_todo_done \<or> ev_route ev = DELETE_todo)
      \<and> snd (handle uuid_validate s ev) = error_response 400 ''Id is not uuid''"
    have "\<not> uuid_validate (p_id ?req) 4"
    proof -
      consider "ev_route ev = PUT_todo" | "ev_route ev = PATCH_todo_done" | "ev_route ev = DELETE_todo"
        using h by blast
      then show ?thesis
      proof cases
        case 1
        with h have "snd (finish s (checksTodoExists uuid_validate s ?req) put_todo)
            = error_response 400 ''Id is not uuid''"
          by (simp add: handle_def)
        then have "checksTodoExists uuid_validate s ?req = Respond (error_response 400 ''Id is not uuid'')"
          by (rule finish_status) (rule handlers_not_400)
        then show ?thesis by (rule checksTodoExists_400D)
      next
        case 2
        with h have "snd (finish s (checksTodoExists uuid_validate s ?req) patch_todo_done)
            = error_response 400 ''Id is not uuid''"
          by (simp add: handle_def)
        then have "checksTodoExists uuid_validate s ?req = Respond (error_response 400 ''Id is not uuid'')"
          by (rule finish_status) (rule handlers_not_400)
        then show ?thesis by (rule checksTodoExists_400D)
      next
        case 3
        with h have "snd (finish s (and_then (checksExistsUserAccount s ?req)
                (checksTodoExists uuid_validate s)) delete_todo)
            = error_response 400 ''Id is not uuid''"
          by (simp add: handle_def)
        then have "and_then (checksExistsUserAccount s ?req) (checksTodoExists uuid_validate s)
            = Respond (error_response 400 ''Id is not uuid'')"
          by (rule finish_status) (rule handlers_not_400)
        then show ?thesis by (rule and_then_400D)
      qed
    qed
    then show "\<not> is_uuid_v4 (p_id (ev_request ev))"
      using is_uuid_v4_validate [of "p_id (ev_request ev)" 4] by auto
  }
qed


lemma not_a_uuid_shape: "\<not> uuid_shape ''not-a-uuid''"
  by code_simp

theorem todo_guard_rejects_malformed_id_witness:
  "(\<not> uuid_shape (p_id (ev_request (on_task PUT_todo ''not-a-uuid'')))
      \<and> ev_route (on_task PUT_todo ''not-a-uuid'') = PUT_todo
      \<and> handle uuid_validate ana_store (on_task PUT_todo ''not-a-uuid'')
          = (ana_store, error_response 400 ''Id is not uuid''))
   \<and> (ev_route (on_task DELETE_todo ''not-a-uuid'') = DELETE_todo
      \<and> (\<exists>u \<in> set (users ana_store).
            username u = header (h_username (ev_request (on_task DELETE_todo ''not-a-uuid''))))
      \<and> handle uuid_validate ana_store (on_task DELETE_todo ''not-a-uuid'')
          = (ana_store, error_response 400 ''Id is not uuid''))
   \<and> (\<not> (\<exists>u \<in> set (users empty_store).
            username u = header (h_username (ev_request (on_task DELETE_todo ''not-a-uuid''))))
      \<and> handle uuid_validate empty_store (on_task DELETE_todo ''not-a-uuid'')
          = (empty_store, error_response 404 ''User not found!''))
   \<and> (snd (handle uuid_validate ana_store (on_task PUT_todo ''not-a-uuid''))
          = error_response 400 ''Id is not uuid''
      \<and> \<not> is_uuid_v4 (p_id (ev_request (on_task PUT_todo ''not-a-uuid''))))"
proof -
  let ?put = "on_task PUT_todo ''not-a-uuid''" and ?del = "on_task DELETE_todo ''not-a-uuid''"
  have n1: "\<not> uuid_shape (p_id (ev_request ?put))" "\<not> uuid_shape (p_id (ev_request ?del))"
    by (simp_all add: example_routes ask_fields not_a_uuid_shape)
  have r1: "ev_route ?put = PUT_todo" and r2: "ev_route ?del = DELETE_todo"
    by (rule example_routes)+
  have u2: "\<exists>u \<in> set (users ana_store). username u = header (h_username (ev_request ?del))"
    by (simp add: example_routes ask_fields ana_store_fields)
  have u3: "\<forall>u \<in> set (users empty_store). username u \<noteq> header (h_username (ev_request ?del))"
    by (simp add: empty_store_def)
  note A = todo_guard_rejects_malformed_id [of ?put ana_store]
  note B = todo_guard_rejects_malformed_id [of ?del ana_store]
  note C = todo_guard_rejects_malformed_id [of ?del empty_store]
  from A n1 r1 have a: "handle uuid_validate ana_store ?put
      = (ana_store, error_response 400 ''Id is not uuid'')" by blast
  from B n1 r2 u2 have b: "handle uuid_validate ana_store ?del
      = (ana_store, error_response 400 ''Id is not uuid'')" by blast
  from C r2 u3 have c: "handle uuid_validate empty_store ?del
      = (empty_store, error_response 404 ''User not found!'')" by blast
  from a have d1: "snd (handle uuid_validate ana_store ?put) = error_response 400 ''Id is not uuid''"
    by simp
  with A r1 have d: "\<not> is_uuid_v4 (p_id (ev_request ?put))" by blast
  from n1 r1 a r2 u2 b u3 c d1 d show ?thesis by blast
qed

subsection \<open>The free plan's limit over a run\<close>

text \<open>A user on the free plan with at most ten tasks, sending only \<open>POST /todos\<close>: the
  list grows by one per request until it holds ten, and stays at ten.\<close>

lemma handle_post_todos:
  assumes "ev_route ev = POST_todos"
    and "first_index (\<lambda>u. username u = header (h_username (ev_request ev))) (users s) = Some a"
  shows "handle validate s ev =
     (if length (todos (users s ! a)) < 10 \<or> pro (users s ! a)
      then (s\<lparr>users := (users s)[a := (users s ! a)\<lparr>todos := todos (users s ! a) @ [allocated s]\<rparr>],
              heap := (heap s)(allocated s := Some \<lparr>todo_id = ev_uuid ev, title = b_title (ev_request ev),
                         deadline = Date (b_deadline (ev_request ev)), todo_done = False,
                         created_at = Now (ev_clock ev)\<rparr>),
              allocated := Suc (allocated s)\<rparr>,
            \<lparr>status = 201, body = JTodo \<lparr>todo_id = ev_uuid ev, title = b_title (ev_request ev),
                         deadline = Date (b_deadline (ev_request ev)), todo_done = False,
                         created_at = Now (ev_clock ev)\<rparr>\<rparr>)
      else (s, error_response 403 ''User is not PRO''))"
proof -
  from first_index_SomeD [OF assms(2)] have a: "a < length (users s)" by simp
  let ?req = "(incoming (ev_request ev))\<lparr>ctx_user := Some a\<rparr>"
  have g: "checksExistsUserAccount s (incoming (ev_request ev)) = Next ?req"
    using assms(2) by (simp add: checksExistsUserAccount_def)
  have l: "lookup_user s ?req = Some (a, users s ! a)"
    using a by (rule lookup_user_ctx)
  show ?thesis
    using assms(1) a
    by (simp add: handle_def g and_then_def checksCreateTodosUserAvailability_def l
        finish_def post_todos_def Let_def)
qed

lemma post_todos_free_plan_cap:
  assumes "first_index (\<lambda>u. username u = header un) (users s) = Some a"
    and "\<not> pro (users s ! a)"
    and "length (todos (users s ! a)) \<le> 10"
    and "\<forall>ev \<in> set evs. ev_route ev = POST_todos \<and> h_username (ev_request ev) = un"
  shows "length (todos (users (run validate s evs) ! a))
           = min 10 (length (todos (users s ! a)) + length evs)"
  using assms
proof (induction evs arbitrary: s)
  case Nil
  then show ?case by simp
next
  case (Cons ev evs)
  let ?s1 = "fst (handle validate s ev)"
  from Cons.prems(4) have r: "ev_route ev = POST_todos" and un: "h_username (ev_request ev) = un"
    by simp_all
  from Cons.prems(1) un
  have f: "first_index (\<lambda>u. username u = header (h_username (ev_request ev))) (users s) = Some a" by simp
  from first_index_SomeD [OF f] have a: "a < length (users s)" by simp
  note h = handle_post_todos [OF r f, of validate]
  have u1: "map username (users ?s1) = map username (users s)"
    by (simp add: h map_update_same)
  then have f1: "first_index (\<lambda>u. username u = header un) (users ?s1) = Some a"
    using Cons.prems(1) by (simp add: first_index_map [of username])
  have p1: "\<not> pro (users ?s1 ! a)"
    using Cons.prems(2) a by (simp add: h)
  have l1: "length (todos (users ?s1 ! a))
      = (if length (todos (users s ! a)) < 10 then Suc (length (todos (users s ! a)))
         else length (todos (users s ! a)))"
    using Cons.prems(2) a by (simp add: h)
  with Cons.prems(3) have le: "length (todos (users ?s1 ! a)) \<le> 10" by simp
  from Cons.prems(4) have rest: "\<forall>ev \<in> set evs. ev_route ev = POST_todos \<and> h_username (ev_request ev) = un"
    by simp
  from Cons.IH [OF f1 p1 le rest] l1 Cons.prems(3) show ?case
    by (simp split: if_splits)
qed


end
